theory Spec2Isabelle
  imports Complex_Main
begin

section \<open>The LaunchBox import pipeline of Pegasus (LaunchboxProvider.cpp)\<close>

text \<open>
  A shallow embedding of the anonymous namespace of \<^verbatim>\<open>LaunchboxProvider.cpp\<close>.
  Strings are \<open>char list\<close>: a \<^verbatim>\<open>QString\<close> is the list of its code units, for texts
  whose code units are below 256 (Latin-1). A \<^verbatim>\<open>HashMap\<close> (the repository's alias of
  \<^verbatim>\<open>std::unordered_map\<close>) is a partial map where only lookups and \<^verbatim>\<open>emplace\<close> are
  used, and an association list where the code iterates over it or asks its size.
  \<^verbatim>\<open>emplace\<close> never overwrites an existing key. \<^verbatim>\<open>at\<close> throws
  \<^verbatim>\<open>std::out_of_range\<close> on a missing key: the functions that call it return
  \<open>option\<close>, \<open>None\<close> being the escaping exception. Diagnostics written with
  \<^verbatim>\<open>qWarning\<close>/\<^verbatim>\<open>qInfo\<close> are returned as a list, in the order they are emitted.
\<close>

subsection \<open>Qt string functions, as documented for Qt 5\<close>

text \<open>\<^verbatim>\<open>QChar::isSpace\<close>: the space, the control characters \<open>0x09\<close> to \<open>0x0D\<close>,
  \<open>0x85\<close>, \<open>0xA0\<close> and the characters of the Unicode separator categories, none of
  which is below 256 apart from the space and \<open>0xA0\<close>.\<close>

definition isSpace :: "char \<Rightarrow> bool" where
  "isSpace c \<longleftrightarrow>
     c \<in> set [CHR 0x09, CHR 0x0A, CHR 0x0B, CHR 0x0C, CHR 0x0D, CHR 0x20, CHR 0x85, CHR 0xA0]"

text \<open>\<^verbatim>\<open>QString::trimmed\<close>: white space, in the sense of \<^verbatim>\<open>QChar::isSpace\<close>, removed from
  both ends.\<close>

definition trimmed :: "string \<Rightarrow> string" where
  "trimmed s = rev (dropWhile isSpace (rev (dropWhile isSpace s)))"

text \<open>\<^verbatim>\<open>QString::left(n)\<close>: the whole string when \<open>n\<close> is negative or not below the size.\<close>

definition left :: "string \<Rightarrow> int \<Rightarrow> string" where
  "left s n = (if n < 0 \<or> int (length s) \<le> n then s else take (nat n) s)"

definition endsWith :: "string \<Rightarrow> string \<Rightarrow> bool" where
  "endsWith s x \<longleftrightarrow> length x \<le> length s \<and> drop (length s - length x) s = x"

text \<open>Backward search from index \<open>i\<close> down to \<open>0\<close>; \<open>-1\<close> when the character is absent.\<close>

fun lastIndexOf_from :: "string \<Rightarrow> char \<Rightarrow> nat \<Rightarrow> int" where
  "lastIndexOf_from s c 0 = (if s ! 0 = c then 0 else - 1)"
| "lastIndexOf_from s c (Suc i) =
     (if s ! Suc i = c then int (Suc i) else lastIndexOf_from s c i)"

definition lastIndexOf :: "string \<Rightarrow> char \<Rightarrow> int \<Rightarrow> int" where
  "lastIndexOf s c from =
     (let n = int (length s); f = (if from < 0 then from + n else from)
      in if f < 0 \<or> n \<le> f then - 1 else lastIndexOf_from s c (nat f))"

text \<open>
  \<^verbatim>\<open>QString::replace(before, after)\<close>: every occurrence, left to right, not overlapping.
  The program only calls it with a non-empty \<open>before\<close>.
\<close>

fun replace :: "string \<Rightarrow> string \<Rightarrow> string \<Rightarrow> string" where
  "replace before after [] = []"
| "replace before after (c # cs) =
     (if before \<noteq> [] \<and> take (length before) (c # cs) = before
      then after @ replace before after (drop (length before - 1) cs)
      else c # replace before after cs)"

text \<open>\<^verbatim>\<open>QString::split(sep)\<close> with the default \<^verbatim>\<open>KeepEmptyParts\<close>.\<close>

fun split_on :: "char \<Rightarrow> string \<Rightarrow> string list" where
  "split_on sep [] = [[]]"
| "split_on sep (c # cs) =
     (if c = sep then [] # split_on sep cs
      else (case split_on sep cs of [] \<Rightarrow> [[c]] | p # ps \<Rightarrow> (c # p) # ps))"

text \<open>\<^verbatim>\<open>QStringList::removeDuplicates\<close> keeps the first occurrence of every entry.\<close>

definition removeDuplicates :: "string list \<Rightarrow> string list" where
  "removeDuplicates xs = rev (remdups (rev xs))"

text \<open>The file name of a path, and \<^verbatim>\<open>QFileInfo::completeBaseName\<close>: the file name up to,
  not including, its last dot; the whole file name when it has no dot.\<close>

definition fileName :: "string \<Rightarrow> string" where
  "fileName p = rev (takeWhile (\<lambda>c. c \<noteq> CHR ''/'') (rev p))"

definition completeBaseName :: "string \<Rightarrow> string" where
  "completeBaseName p =
     (let n = fileName p
      in if CHR ''.'' \<in> set n then rev (tl (dropWhile (\<lambda>c. c \<noteq> CHR ''.'') (rev n))) else n)"

subsection \<open>Data model\<close>

datatype GameField =
  ID | PATH | TITLE | RELEASE | DEVELOPER | PUBLISHER | NOTES | PLAYMODE | GENRE | STARS
  | EMULATOR | EMULATOR_PARAMS

datatype AdditionalAppField = AA_ID | AA_GAME_ID | AA_PATH | AA_NAME

datatype AssetType =
  BOX_FRONT | BOX_BACK | ARCADE_MARQUEE | CARTRIDGE | SCREENSHOTS | POSTER | ARCADE_PANEL
  | LOGO | BACKGROUND | UI_STEAMGRID | MUSIC | VIDEOS

record Emulator =
  emu_app_path :: string
  emu_cmd_params :: string

definition emu_incomplete :: "Emulator \<Rightarrow> bool" where
  "emu_incomplete e \<longleftrightarrow> emu_app_path e = []"

record Platform =
  default_emu_id :: string
  plat_name :: string
  plat_cmd_params :: string
  xml_path :: string

definition plat_incomplete :: "Platform \<Rightarrow> bool" where
  "plat_incomplete p \<longleftrightarrow> default_emu_id p = [] \<or> plat_name p = [] \<or> xml_path p = []"

text \<open>What the program reads of a \<^verbatim>\<open>QFileInfo\<close>. \<^verbatim>\<open>canonicalFilePath\<close> is empty for a
  file that does not exist.\<close>

record QFileInfo =
  filePath :: string
  exists :: bool
  canonicalFilePath :: string

text \<open>\<^verbatim>\<open>QFileInfo::operator==\<close>: both refer to a file in the same location.\<close>

definition finfo_eq :: "QFileInfo \<Rightarrow> QFileInfo \<Rightarrow> bool" where
  "finfo_eq a b \<longleftrightarrow> filePath a = filePath b \<or> canonicalFilePath a = canonicalFilePath b"

datatype QDate = QDate int nat nat

record GameFile =
  fileinfo :: QFileInfo
  gf_name :: string

text \<open>
  Modelled from the spec: \<^verbatim>\<open>modeldata::Game\<close> and its asset store are declared outside the
  given sources. The record has the fields the spec's data model lists; an invalid
  \<^verbatim>\<open>QDate\<close> is \<open>None\<close>; the rating is a \<^verbatim>\<open>float\<close>, read here as the real number it
  denotes; \<^verbatim>\<open>Game(finfo)\<close> starts with every metadata field unset and the file as its only
  launch file; \<^verbatim>\<open>addFileMaybe\<close> attaches a file under an asset type only if the game has
  no asset of that type yet.
\<close>

record Game =
  title :: string
  description :: string
  developers :: "string list"
  publishers :: "string list"
  genres :: "string list"
  release_date :: "QDate option"
  rating :: real
  launch_cmd :: string
  launch_workdir :: string
  files :: "GameFile list"
  assets :: "(AssetType \<times> string) list"

definition new_Game :: "QFileInfo \<Rightarrow> Game" where
  "new_Game finfo =
     \<lparr>title = [], description = [], developers = [], publishers = [], genres = [],
      release_date = None, rating = 0, launch_cmd = [], launch_workdir = [],
      files = [\<lparr>fileinfo = finfo, gf_name = []\<rparr>], assets = []\<rparr>"

definition addFileMaybe :: "AssetType \<Rightarrow> string \<Rightarrow> Game \<Rightarrow> Game" where
  "addFileMaybe t p g =
     (if t \<in> fst ` set (assets g) then g else g\<lparr>assets := assets g @ [(t, p)]\<rparr>)"

text \<open>
  An XML file as the stream reader delivers it: the name of the root element (\<open>None\<close>
  when no start element can be read), the child elements of the root read before any
  parse error, each with its own children as (name, text) pairs in document order, and
  the parse error that ends the stream, if any.

  The parts of Qt and of the file system the pipeline consults: \<open>finfo_in dir file\<close> is
  \<^verbatim>\<open>QFileInfo(dir, file)\<close>, \<open>finfo_of path\<close> is \<^verbatim>\<open>QFileInfo(path)\<close>, \<open>dir_files dir\<close>
  lists the paths a recursive \<^verbatim>\<open>QDirIterator\<close> over the readable files of \<open>dir\<close> yields,
  in its order, \<open>open_xml path\<close> is the content of the XML file at \<open>path\<close>, \<open>None\<close>
  when it cannot be opened.

  \<open>toFloat s\<close> is the \<^verbatim>\<open>float\<close> that \<^verbatim>\<open>QString::toFloat\<close> returns with \<^verbatim>\<open>ok\<close> set,
  read as the real number it denotes, and \<open>None\<close> when \<^verbatim>\<open>ok\<close> is cleared. The program
  only compares floats, which is exact on the numbers they denote. A text that parses to
  a NaN counts as \<open>None\<close> (every comparison with it is false, so the rating is left as
  it is, as after a failed parse); infinite values are not represented.

  \<open>iterate_fields m\<close> is the order in which a range-based \<^verbatim>\<open>for\<close> visits the
  entries of the field map \<^verbatim>\<open>HashMap<GameField, QString, EnumHash>\<close> that was filled in
  the order \<open>m\<close>: a permutation of \<open>m\<close> that the C++ library chooses.
\<close>

type_synonym xml_element = "string \<times> (string \<times> string) list"

datatype xml_error = Xml_malformed | Xml_could_not_parse string | Xml_no_root string

record xml_doc =
  root :: "string option"
  children :: "xml_element list"
  doc_error :: "xml_error option"

record World =
  finfo_in :: "string \<Rightarrow> string \<Rightarrow> QFileInfo"
  finfo_of :: "string \<Rightarrow> QFileInfo"
  absolutePath :: "string \<Rightarrow> string"
  toFloat :: "string \<Rightarrow> real option"
  date_fromString :: "string \<Rightarrow> QDate option"
  dir_files :: "string \<Rightarrow> string list"
  open_xml :: "string \<Rightarrow> xml_doc option"
  iterate_fields :: "(GameField \<times> string) list \<Rightarrow> (GameField \<times> string) list"

subsection \<open>store_game_fields\<close>

text \<open>The \<^verbatim>\<open>float\<close> literal \<^verbatim>\<open>0.0001f\<close>: the single-precision number nearest to
  \<open>1/10000\<close>, which is \<open>13743895 / 2^37\<close>, a little below \<open>1/10000\<close>.\<close>

definition float_0_0001 :: real where
  "float_0_0001 = 13743895 / 137438953472"

text \<open>The body of the loop over the field map: one \<^verbatim>\<open>case\<close> of the \<^verbatim>\<open>switch\<close> per
  equation. The state is the game and the locals \<^verbatim>\<open>emu_app\<close> and \<^verbatim>\<open>emu_params\<close>.\<close>

fun store_field ::
  "World \<Rightarrow> (string \<rightharpoonup> Emulator) \<Rightarrow> GameField \<times> string \<Rightarrow> Game \<times> string \<times> string
    \<Rightarrow> Game \<times> string \<times> string" where
  "store_field w emulators (TITLE, v) (game, emu_app, emu_params) =
     (game\<lparr>title := v\<rparr>, emu_app, emu_params)"
| "store_field w emulators (NOTES, v) (game, emu_app, emu_params) =
     ((if description game = [] then game\<lparr>description := v\<rparr> else game), emu_app, emu_params)"
| "store_field w emulators (DEVELOPER, v) (game, emu_app, emu_params) =
     (game\<lparr>developers := removeDuplicates (developers game @ [v])\<rparr>, emu_app, emu_params)"
| "store_field w emulators (PUBLISHER, v) (game, emu_app, emu_params) =
     (game\<lparr>publishers := removeDuplicates (publishers game @ [v])\<rparr>, emu_app, emu_params)"
| "store_field w emulators (GENRE, v) (game, emu_app, emu_params) =
     (game\<lparr>genres := removeDuplicates (genres game @ [v])\<rparr>, emu_app, emu_params)"
| "store_field w emulators (RELEASE, v) (game, emu_app, emu_params) =
     ((if release_date game = None then game\<lparr>release_date := date_fromString w v\<rparr> else game),
      emu_app, emu_params)"
| "store_field w emulators (STARS, v) (game, emu_app, emu_params) =
     ((if rating game < float_0_0001
       then (case toFloat w v of
               None \<Rightarrow> game
             | Some fval \<Rightarrow> if fval > rating game then game\<lparr>rating := fval\<rparr> else game)
       else game),
      emu_app, emu_params)"
| "store_field w emulators (PLAYMODE, v) (game, emu_app, emu_params) =
     (game\<lparr>genres := removeDuplicates (genres game @ map trimmed (split_on CHR '';'' v))\<rparr>,
      emu_app, emu_params)"
| "store_field w emulators (EMULATOR, v) (game, emu_app, emu_params) =
     (case emulators v of
        None \<Rightarrow> (game, emu_app, emu_params)
      | Some e \<Rightarrow> (game, emu_app_path e, emu_params))"
| "store_field w emulators (EMULATOR_PARAMS, v) (game, emu_app, emu_params) =
     (game, emu_app, v)"
| "store_field w emulators (ID, v) (game, emu_app, emu_params) = (game, emu_app, emu_params)"
| "store_field w emulators (PATH, v) (game, emu_app, emu_params) = (game, emu_app, emu_params)"

text \<open>\<^verbatim>\<open>QStringLiteral("\"%1\" %2 {file.path}").arg(emu_app, emu_params)\<close>: both place
  markers are replaced in one pass.\<close>

definition launch_template :: "string \<Rightarrow> string \<Rightarrow> string" where
  "launch_template emu_app emu_params =
     [CHR 0x22] @ emu_app @ [CHR 0x22] @ '' '' @ emu_params @ '' {file.path}''"

text \<open>The field map is given as the list of its entries, one per key, in the order in
  which the loop visits them.\<close>

definition store_game_fields ::
  "World \<Rightarrow> Game \<Rightarrow> (GameField \<times> string) list \<Rightarrow> Platform \<Rightarrow> (string \<rightharpoonup> Emulator)
    \<Rightarrow> Game option" where
  "store_game_fields w game flds platform emulators =
     (case emulators (default_emu_id platform) of
        None \<Rightarrow> None
      | Some e \<Rightarrow>
          (let emu_app0 = emu_app_path e;
               emu_params0 =
                 (if plat_cmd_params platform = [] then emu_app_path e
                  else plat_cmd_params platform);
               (game', emu_app, emu_params) =
                 fold (store_field w emulators) flds (game, emu_app0, emu_params0)
           in Some (game'\<lparr>launch_cmd := launch_template emu_app emu_params,
                          launch_workdir := absolutePath w emu_app\<rparr>)))"

subsection \<open>The shared scan context\<close>

text \<open>\<^verbatim>\<open>emplace\<close> on a hash map: the entry is added only if the key is absent.\<close>

definition emplace :: "('k \<rightharpoonup> 'v) \<Rightarrow> 'k \<Rightarrow> 'v \<Rightarrow> ('k \<rightharpoonup> 'v)" where
  "emplace m k v = (if m k = None then m(k \<mapsto> v) else m)"

definition alist_emplace :: "('k \<times> 'v) list \<Rightarrow> 'k \<Rightarrow> 'v \<Rightarrow> ('k \<times> 'v) list" where
  "alist_emplace m k v = (if map_of m k = None then m @ [(k, v)] else m)"

text \<open>Writing through the reference that \<^verbatim>\<open>games.at(id)\<close> returned.\<close>

definition games_set :: "(nat \<times> Game) list \<Rightarrow> nat \<Rightarrow> Game \<Rightarrow> (nat \<times> Game) list" where
  "games_set gs k g' = map (\<lambda>(k', g). if k' = k then (k', g') else (k', g)) gs"

record Collection =
  coll_name :: string

text \<open>
  Modelled from the spec: \<^verbatim>\<open>providers::SearchContext\<close> is declared outside the given
  sources. It holds the game records by game id, the canonical-path dedup index, the
  collections and the child list of each collection. \<open>length (games sctx)\<close> is
  \<^verbatim>\<open>sctx.games.size()\<close>.
\<close>

record SearchContext =
  games :: "(nat \<times> Game) list"
  path_to_gameid :: "string \<rightharpoonup> nat"
  collections :: "string \<rightharpoonup> Collection"
  collection_childs :: "string \<rightharpoonup> nat list"

datatype diag =
    Warn_no_launch_cmd string
  | Warn_game_no_id string
  | Warn_game_no_path string string
  | Warn_game_file_missing string string
  | Warn_addiapp_no_id string
  | Warn_addiapp_no_gameid string string
  | Warn_addiapp_unknown_game string string string
  | Warn_addiapp_no_path string string
  | Warn_addiapp_file_missing string string
  | Warn_could_not_open string
  | Warn_xml xml_error
  | Warn_emulator_missing string
  | Warn_platform_missing_emulator string
  | Warn_no_emulators
  | Warn_no_platforms

subsection \<open>The literal tables\<close>

definition gamefield_map :: "string \<rightharpoonup> GameField" where
  "gamefield_map = map_of
     [(''ID'', ID), (''ApplicationPath'', PATH), (''Title'', TITLE),
      (''Developer'', DEVELOPER), (''Publisher'', PUBLISHER), (''ReleaseDate'', RELEASE),
      (''Notes'', NOTES), (''PlayMode'', PLAYMODE), (''Genre'', GENRE),
      (''CommunityStarRating'', STARS), (''Emulator'', EMULATOR),
      (''CommandLine'', EMULATOR_PARAMS)]"

definition addiappfield_map :: "string \<rightharpoonup> AdditionalAppField" where
  "addiappfield_map = map_of
     [(''Id'', AA_ID), (''ApplicationPath'', AA_PATH), (''GameID'', AA_GAME_ID),
      (''Name'', AA_NAME)]"

definition assetdir_map :: "(string \<times> AssetType) list" where
  "assetdir_map =
     [(''Box - Front'', BOX_FRONT), (''Box - Front - Reconstructed'', BOX_FRONT),
      (''Fanart - Box - Front'', BOX_FRONT),
      (''Box - Back'', BOX_BACK), (''Box - Back - Reconstructed'', BOX_BACK),
      (''Fanart - Box - Back'', BOX_BACK),
      (''Arcade - Marquee'', ARCADE_MARQUEE), (''Banner'', ARCADE_MARQUEE),
      (''Cart - Front'', CARTRIDGE), (''Disc'', CARTRIDGE),
      (''Fanart - Cart - Front'', CARTRIDGE), (''Fanart - Disc'', CARTRIDGE),
      (''Screenshot - Gameplay'', SCREENSHOTS), (''Screenshot - Game Select'', SCREENSHOTS),
      (''Screenshot - Game Title'', SCREENSHOTS), (''Screenshot - Game Over'', SCREENSHOTS),
      (''Screenshot - High Scores'', SCREENSHOTS),
      (''Advertisement Flyer - Front'', POSTER), (''Arcade - Control Panel'', ARCADE_PANEL),
      (''Clear Logo'', LOGO), (''Fanart - Background'', BACKGROUND),
      (''Steam Banner'', UI_STEAMGRID)]"

subsection \<open>store_game\<close>

text \<open>\<open>flds\<close> is the field map in the order it was filled; \<open>store_game_fields\<close> gets
  its entries in the order the hash map is iterated.\<close>

definition store_game ::
  "World \<Rightarrow> QFileInfo \<Rightarrow> (GameField \<times> string) list \<Rightarrow> Platform \<Rightarrow> (string \<rightharpoonup> Emulator)
    \<Rightarrow> SearchContext \<Rightarrow> nat list \<Rightarrow> ((nat \<times> SearchContext \<times> nat list) \<times> diag list) option" where
  "store_game w finfo flds platform emulators sctx childs =
     (let can_path = canonicalFilePath finfo;
          created =
            (if path_to_gameid sctx can_path = None
             then (case store_game_fields w (new_Game finfo) (iterate_fields w flds) platform
                          emulators of
                     None \<Rightarrow> None
                   | Some game \<Rightarrow>
                       (let warn = (if launch_cmd game = []
                                    then [Warn_no_launch_cmd (title game)] else []);
                            game_id = length (games sctx);
                            sctx1 = sctx\<lparr>path_to_gameid :=
                                      emplace (path_to_gameid sctx) can_path game_id\<rparr>;
                            sctx2 = sctx1\<lparr>games := alist_emplace (games sctx1) game_id game\<rparr>
                        in Some (sctx2, warn)))
             else Some (sctx, []))
      in case created of
           None \<Rightarrow> None
         | Some (sctx', warn) \<Rightarrow>
             (case path_to_gameid sctx' can_path of
                None \<Rightarrow> None
              | Some game_id \<Rightarrow> Some ((game_id, sctx', childs @ [game_id]), warn)))"

subsection \<open>platform_xml_read_game\<close>

text \<open>The loop that collects the whitelisted, trimmed, non-empty child elements of a
  \<^verbatim>\<open>Game\<close> or \<^verbatim>\<open>AdditionalApplication\<close> element; the first value of a field is kept.
  The list keeps the order of insertion; lookups by key do not depend on it.\<close>

fun collect_values ::
  "(string \<rightharpoonup> 'f) \<Rightarrow> (string \<times> string) list \<Rightarrow> ('f \<times> string) list \<Rightarrow> ('f \<times> string) list" where
  "collect_values field_map [] vals = vals"
| "collect_values field_map ((n, text) # rest) vals =
     (case field_map n of
        None \<Rightarrow> collect_values field_map rest vals
      | Some f \<Rightarrow>
          (let contents = trimmed text
           in if contents = [] then collect_values field_map rest vals
              else collect_values field_map rest (alist_emplace vals f contents)))"

text \<open>The reader argument is the name of the file it reads and the children of the
  current element. The state is the context, the child list of the platform's collection
  and the file-local id map.\<close>

definition platform_xml_read_game ::
  "World \<Rightarrow> string \<Rightarrow> (string \<times> string) list \<Rightarrow> (string \<rightharpoonup> GameField) \<Rightarrow> string \<Rightarrow> Platform
    \<Rightarrow> (string \<rightharpoonup> Emulator) \<Rightarrow> SearchContext \<times> nat list \<times> (string \<rightharpoonup> nat)
    \<Rightarrow> ((SearchContext \<times> nat list \<times> (string \<rightharpoonup> nat)) \<times> diag list) option" where
  "platform_xml_read_game w xmlpath elem field_map lb_dir platform emulators st =
     (case st of (sctx, childs, gameid_map) \<Rightarrow>
      (let game_values = collect_values field_map elem []
       in case map_of game_values ID of
            None \<Rightarrow> Some (st, [Warn_game_no_id xmlpath])
          | Some id_v \<Rightarrow>
              (case map_of game_values PATH of
                 None \<Rightarrow> Some (st, [Warn_game_no_path xmlpath id_v])
               | Some path_v \<Rightarrow>
                   (let game_finfo = finfo_in w lb_dir path_v
                    in if \<not> exists game_finfo
                       then Some (st, [Warn_game_file_missing xmlpath path_v])
                       else (case store_game w game_finfo game_values platform emulators
                                    sctx childs of
                               None \<Rightarrow> None
                             | Some ((gameid, sctx', childs'), ds) \<Rightarrow>
                                 Some ((sctx', childs', emplace gameid_map id_v gameid), ds))))))"

subsection \<open>store_addiapp\<close>

fun set_first_name :: "QFileInfo \<Rightarrow> string \<Rightarrow> GameFile list \<Rightarrow> GameFile list" where
  "set_first_name fi n [] = []"
| "set_first_name fi n (gf # gfs) =
     (if finfo_eq (fileinfo gf) fi then gf\<lparr>gf_name := n\<rparr> # gfs
      else gf # set_first_name fi n gfs)"

definition attach_file :: "QFileInfo \<Rightarrow> string option \<Rightarrow> Game \<Rightarrow> Game" where
  "attach_file path_finfo name_it game =
     (case List.find (\<lambda>gf. finfo_eq (fileinfo gf) path_finfo) (files game) of
        Some gf \<Rightarrow>
          (case name_it of
             None \<Rightarrow> game
           | Some n \<Rightarrow> game\<lparr>files := set_first_name path_finfo n (files game)\<rparr>)
      | None \<Rightarrow>
          game\<lparr>files := files game @
             [\<lparr>fileinfo = path_finfo, gf_name = (case name_it of None \<Rightarrow> [] | Some n \<Rightarrow> n)\<rparr>]\<rparr>)"

definition store_addiapp ::
  "World \<Rightarrow> string \<Rightarrow> string \<Rightarrow> (AdditionalAppField \<times> string) list \<Rightarrow> (string \<rightharpoonup> nat)
    \<Rightarrow> SearchContext \<Rightarrow> (SearchContext \<times> diag list) option" where
  "store_addiapp w xmlpath lb_dir vals gameid_map sctx =
     (case map_of vals AA_ID of
        None \<Rightarrow> Some (sctx, [Warn_addiapp_no_id xmlpath])
      | Some id_v \<Rightarrow>
     (case map_of vals AA_GAME_ID of
        None \<Rightarrow> Some (sctx, [Warn_addiapp_no_gameid xmlpath id_v])
      | Some lb_gameid \<Rightarrow>
     (case gameid_map lb_gameid of
        None \<Rightarrow> Some (sctx, [Warn_addiapp_unknown_game xmlpath id_v lb_gameid])
      | Some gameid \<Rightarrow>
     (case map_of vals AA_PATH of
        None \<Rightarrow> Some (sctx, [Warn_addiapp_no_path xmlpath id_v])
      | Some path_v \<Rightarrow>
          (let path_finfo = finfo_in w lb_dir path_v
           in if \<not> exists path_finfo
              then Some (sctx, [Warn_addiapp_file_missing xmlpath path_v])
              else (let name_it = map_of vals AA_NAME;
                        can_path = canonicalFilePath path_finfo
                    in case map_of (games sctx) gameid of
                         None \<Rightarrow> None
                       | Some game \<Rightarrow>
                           Some (sctx\<lparr>games := games_set (games sctx) gameid
                                               (attach_file path_finfo name_it game),
                                      path_to_gameid :=
                                        emplace (path_to_gameid sctx) can_path gameid\<rparr>,
                                 [])))))))"

subsection \<open>platform_xml_read_root and process_platform_xml\<close>

text \<open>The loop over the children of the root: \<^verbatim>\<open>Game\<close> elements are stored at once,
  \<^verbatim>\<open>AdditionalApplication\<close> elements are only collected.\<close>

fun read_root_loop ::
  "World \<Rightarrow> string \<Rightarrow> string \<Rightarrow> Platform \<Rightarrow> (string \<rightharpoonup> Emulator) \<Rightarrow> xml_element list
    \<Rightarrow> (SearchContext \<times> nat list \<times> (string \<rightharpoonup> nat)) \<times> (AdditionalAppField \<times> string) list list
    \<Rightarrow> (((SearchContext \<times> nat list \<times> (string \<rightharpoonup> nat))
          \<times> (AdditionalAppField \<times> string) list list) \<times> diag list) option" where
  "read_root_loop w xmlpath lb_dir platform emulators [] (st, addiapps) =
     Some ((st, addiapps), [])"
| "read_root_loop w xmlpath lb_dir platform emulators ((n, elem) # rest) (st, addiapps) =
     (if n = ''Game''
      then (case platform_xml_read_game w xmlpath elem gamefield_map lb_dir platform
                   emulators st of
              None \<Rightarrow> None
            | Some (st', ds) \<Rightarrow>
                (case read_root_loop w xmlpath lb_dir platform emulators rest (st', addiapps) of
                   None \<Rightarrow> None
                 | Some (r, ds') \<Rightarrow> Some (r, ds @ ds')))
      else if n = ''AdditionalApplication''
      then read_root_loop w xmlpath lb_dir platform emulators rest
             (st, addiapps @ [collect_values addiappfield_map elem []])
      else read_root_loop w xmlpath lb_dir platform emulators rest (st, addiapps))"

text \<open>The loop over the collected additional applications.\<close>

fun store_addiapps ::
  "World \<Rightarrow> string \<Rightarrow> string \<Rightarrow> (AdditionalAppField \<times> string) list list \<Rightarrow> (string \<rightharpoonup> nat)
    \<Rightarrow> SearchContext \<Rightarrow> (SearchContext \<times> diag list) option" where
  "store_addiapps w xmlpath lb_dir [] gameid_map sctx = Some (sctx, [])"
| "store_addiapps w xmlpath lb_dir (vals # rest) gameid_map sctx =
     (case store_addiapp w xmlpath lb_dir vals gameid_map sctx of
        None \<Rightarrow> None
      | Some (sctx', ds) \<Rightarrow>
          (case store_addiapps w xmlpath lb_dir rest gameid_map sctx' of
             None \<Rightarrow> None
           | Some (sctx'', ds') \<Rightarrow> Some (sctx'', ds @ ds')))"

text \<open>
  The result is the context, the error raised on the reader (\<^verbatim>\<open>raiseError\<close>, or the
  parse error that ended the loop) and the diagnostics. \<^verbatim>\<open>collection_childs\<close> is a
  reference to \<^verbatim>\<open>sctx.collection_childs[platform.name]\<close>, which \<^verbatim>\<open>operator[]\<close> creates
  empty when absent; the model reads the vector before the loop and writes it back after
  it (nothing in between reads it through the context).
\<close>

definition platform_xml_read_root ::
  "World \<Rightarrow> string \<Rightarrow> xml_doc \<Rightarrow> string \<Rightarrow> Platform \<Rightarrow> (string \<rightharpoonup> Emulator) \<Rightarrow> SearchContext
    \<Rightarrow> ((SearchContext \<times> xml_error option) \<times> diag list) option" where
  "platform_xml_read_root w xmlpath xml lb_dir platform emulators sctx =
     (case root xml of
        None \<Rightarrow> Some ((sctx, Some (Xml_could_not_parse xmlpath)), [])
      | Some r \<Rightarrow>
          if r \<noteq> ''LaunchBox'' then Some ((sctx, Some (Xml_no_root xmlpath)), [])
          else
            (let sctx1 = sctx\<lparr>collections :=
                           emplace (collections sctx) (plat_name platform)
                             \<lparr>coll_name = plat_name platform\<rparr>\<rparr>;
                 childs = (case collection_childs sctx1 (plat_name platform) of
                             None \<Rightarrow> [] | Some c \<Rightarrow> c)
             in case read_root_loop w xmlpath lb_dir platform emulators (children xml)
                       ((sctx1, childs, Map.empty), []) of
                  None \<Rightarrow> None
                | Some (((sctx2, childs', gameid_map), addiapps), ds) \<Rightarrow>
                    (let sctx3 = sctx2\<lparr>collection_childs :=
                                   (collection_childs sctx2)(plat_name platform \<mapsto> childs')\<rparr>
                     in case store_addiapps w xmlpath lb_dir addiapps gameid_map sctx3 of
                          None \<Rightarrow> None
                        | Some (sctx4, ds') \<Rightarrow> Some ((sctx4, doc_error xml), ds @ ds'))))"

definition process_platform_xml ::
  "World \<Rightarrow> string \<Rightarrow> Platform \<Rightarrow> (string \<rightharpoonup> Emulator) \<Rightarrow> SearchContext
    \<Rightarrow> (SearchContext \<times> diag list) option" where
  "process_platform_xml w lb_dir platform emulators sctx =
     (case open_xml w (xml_path platform) of
        None \<Rightarrow> Some (sctx, [Warn_could_not_open (xml_path platform)])
      | Some xml \<Rightarrow>
          (case platform_xml_read_root w (xml_path platform) xml lb_dir platform emulators sctx of
             None \<Rightarrow> None
           | Some ((sctx', err), ds) \<Rightarrow>
               Some (sctx', ds @ (case err of None \<Rightarrow> [] | Some e \<Rightarrow> [Warn_xml e]))))"

subsection \<open>read_emulators_xml\<close>

record EmulatorData =
  emus :: "(string \<times> Emulator) list"
  platforms :: "Platform list"

text \<open>The inner loop over the children of an \<^verbatim>\<open>EmulatorPlatform\<close> element.\<close>

fun read_platform_fields :: "(string \<times> string) list \<Rightarrow> Platform \<Rightarrow> Platform" where
  "read_platform_fields [] p = p"
| "read_platform_fields ((n, text) # rest) p =
     (if n = ''Emulator'' then read_platform_fields rest (p\<lparr>default_emu_id := trimmed text\<rparr>)
      else if n = ''Platform'' then read_platform_fields rest (p\<lparr>plat_name := trimmed text\<rparr>)
      else if n = ''CommandLine''
      then read_platform_fields rest (p\<lparr>plat_cmd_params := trimmed text\<rparr>)
      else read_platform_fields rest p)"

text \<open>The inner loop over the children of an \<^verbatim>\<open>Emulator\<close> element; the state is the
  id and the emulator, the result adds the diagnostics.\<close>

fun read_emulator_fields ::
  "World \<Rightarrow> string \<Rightarrow> (string \<times> string) list \<Rightarrow> string \<times> Emulator
    \<Rightarrow> (string \<times> Emulator) \<times> diag list" where
  "read_emulator_fields w lb_dir [] st = (st, [])"
| "read_emulator_fields w lb_dir ((n, text) # rest) (emu_id, emu) =
     (if n = ''ID'' then read_emulator_fields w lb_dir rest (trimmed text, emu)
      else if n = ''ApplicationPath''
      then (let finfo = finfo_in w lb_dir (trimmed text);
                emu' = emu\<lparr>emu_app_path := canonicalFilePath finfo\<rparr>;
                ds = (if emu_app_path emu' = [] then [Warn_emulator_missing (filePath finfo)]
                      else []);
                (r, ds') = read_emulator_fields w lb_dir rest (emu_id, emu')
            in (r, ds @ ds'))
      else if n = ''CommandLine''
      then read_emulator_fields w lb_dir rest (emu_id, emu\<lparr>emu_cmd_params := trimmed text\<rparr>)
      else read_emulator_fields w lb_dir rest (emu_id, emu))"

text \<open>The outer loop over the children of the root.\<close>

fun read_emulators_loop ::
  "World \<Rightarrow> string \<Rightarrow> xml_element list \<Rightarrow> EmulatorData \<Rightarrow> EmulatorData \<times> diag list" where
  "read_emulators_loop w lb_dir [] out = (out, [])"
| "read_emulators_loop w lb_dir ((n, elem) # rest) out =
     (if n = ''EmulatorPlatform''
      then (let p0 = read_platform_fields elem
                       \<lparr>default_emu_id = [], plat_name = [], plat_cmd_params = [],
                        xml_path = []\<rparr>;
                p = (if plat_name p0 \<noteq> []
                     then p0\<lparr>xml_path := canonicalFilePath (finfo_of w
                            (lb_dir @ ''Data/Platforms/'' @ plat_name p0 @ ''.xml''))\<rparr>
                     else p0)
            in read_emulators_loop w lb_dir rest
                 (if \<not> plat_incomplete p then out\<lparr>platforms := platforms out @ [p]\<rparr> else out))
      else if n = ''Emulator''
      then (let ((emu_id, emu), ds) =
                  read_emulator_fields w lb_dir elem
                    ([], \<lparr>emu_app_path = [], emu_cmd_params = []\<rparr>);
                (r, ds') = read_emulators_loop w lb_dir rest
                  (if emu_id \<noteq> [] \<and> \<not> emu_incomplete emu
                   then out\<lparr>emus := alist_emplace (emus out) emu_id emu\<rparr> else out)
            in (r, ds @ ds'))
      else read_emulators_loop w lb_dir rest out)"

text \<open>The final loop: remove platforms without emulator.\<close>

fun remove_platforms_without_emulator ::
  "(string \<times> Emulator) list \<Rightarrow> Platform list \<Rightarrow> Platform list \<times> diag list" where
  "remove_platforms_without_emulator es [] = ([], [])"
| "remove_platforms_without_emulator es (p # ps) =
     (let (ps', ds) = remove_platforms_without_emulator es ps
      in if map_of es (default_emu_id p) = None
         then (ps', Warn_platform_missing_emulator (plat_name p) # ds)
         else (p # ps', ds))"

definition read_emulators_xml :: "World \<Rightarrow> string \<Rightarrow> EmulatorData \<times> diag list" where
  "read_emulators_xml w lb_dir =
     (let xmlpath = lb_dir @ ''Data/Emulators.xml''
      in case open_xml w xmlpath of
           None \<Rightarrow> (\<lparr>emus = [], platforms = []\<rparr>, [Warn_could_not_open xmlpath])
         | Some xml \<Rightarrow>
             (let raised = (case root xml of
                              None \<Rightarrow> None
                            | Some r \<Rightarrow> if r \<noteq> ''LaunchBox'' then Some (Xml_no_root xmlpath)
                                        else None);
                  (out, ds) = (if root xml = None \<or> raised \<noteq> None
                               then (\<lparr>emus = [], platforms = []\<rparr>, [])
                               else read_emulators_loop w lb_dir (children xml)
                                      \<lparr>emus = [], platforms = []\<rparr>);
                  err = (case raised of Some e \<Rightarrow> Some e | None \<Rightarrow> doc_error xml);
                  ds_err = (case err of None \<Rightarrow> [] | Some e \<Rightarrow> [Warn_xml e]);
                  (ps, ds_rm) = remove_platforms_without_emulator (emus out) (platforms out)
              in (out\<lparr>platforms := ps\<rparr>, ds @ ds_err @ ds_rm)))"

subsection \<open>Asset matching\<close>

definition rx_invalid :: "char \<Rightarrow> bool" where
  "rx_invalid c \<longleftrightarrow>
     c \<in> set [CHR ''<'', CHR ''>'', CHR '':'', CHR 0x22, CHR ''/'', CHR 0x5C, CHR ''|'',
              CHR ''?'', CHR ''*'', CHR 0x27]"

definition escape_title :: "string \<Rightarrow> string" where
  "escape_title t = map (\<lambda>c. if rx_invalid c then CHR ''_'' else c) t"

fun build_title_map ::
  "(string \<Rightarrow> string) \<Rightarrow> nat list \<Rightarrow> (nat \<times> Game) list \<Rightarrow> (string \<rightharpoonup> nat)
    \<Rightarrow> (string \<rightharpoonup> nat) option" where
  "build_title_map esc [] gs out = Some out"
| "build_title_map esc (gameid # rest) gs out =
     (case map_of gs gameid of
        None \<Rightarrow> None
      | Some g \<Rightarrow> build_title_map esc rest gs (emplace out (esc (title g)) gameid))"

definition build_escaped_title_map ::
  "nat list \<Rightarrow> (nat \<times> Game) list \<Rightarrow> (string \<rightharpoonup> nat) option" where
  "build_escaped_title_map coll_childs gs = build_title_map escape_title coll_childs gs Map.empty"

text \<open>The name \<^verbatim>\<open>find_assets_in\<close> looks up for a file with the given complete base name.\<close>

definition asset_game_title :: "bool \<Rightarrow> string \<Rightarrow> string" where
  "asset_game_title has_num_suffix basename =
     (if has_num_suffix then left basename (int (length basename) - 3) else basename)"

fun find_assets_loop ::
  "AssetType \<Rightarrow> bool \<Rightarrow> (string \<rightharpoonup> nat) \<Rightarrow> string list \<Rightarrow> (nat \<times> Game) list
    \<Rightarrow> (nat \<times> Game) list option" where
  "find_assets_loop asset_type has_num_suffix title_to_gameid_map [] gs = Some gs"
| "find_assets_loop asset_type has_num_suffix title_to_gameid_map (f # fs) gs =
     (let basename = completeBaseName f;
          game_title = asset_game_title has_num_suffix basename
      in case title_to_gameid_map game_title of
           None \<Rightarrow> find_assets_loop asset_type has_num_suffix title_to_gameid_map fs gs
         | Some gameid \<Rightarrow>
             (case map_of gs gameid of
                None \<Rightarrow> None
              | Some game \<Rightarrow>
                  find_assets_loop asset_type has_num_suffix title_to_gameid_map fs
                    (games_set gs gameid (addFileMaybe asset_type f game))))"

definition find_assets_in ::
  "World \<Rightarrow> string \<Rightarrow> AssetType \<Rightarrow> bool \<Rightarrow> (string \<rightharpoonup> nat) \<Rightarrow> (nat \<times> Game) list
    \<Rightarrow> (nat \<times> Game) list option" where
  "find_assets_in w asset_dir asset_type has_num_suffix title_to_gameid_map gs =
     find_assets_loop asset_type has_num_suffix title_to_gameid_map (dir_files w asset_dir) gs"

text \<open>The two titles \<^verbatim>\<open>find_videos_in\<close> looks up: the base name without a trailing
  parenthesis group, trimmed; and, after a miss, its normalisation.\<close>

definition video_title_range_end :: "string \<Rightarrow> int" where
  "video_title_range_end basename =
     (if endsWith basename '')''
      then (let idx = lastIndexOf basename CHR ''('' (- 2)
            in if 0 < idx then idx else int (length basename))
      else int (length basename))"

definition video_game_title :: "string \<Rightarrow> string" where
  "video_game_title basename = trimmed (left basename (video_title_range_end basename))"

definition video_retry_title :: "string \<Rightarrow> string" where
  "video_retry_title game_title =
     (let t = replace '' - '' '': '' game_title
      in if endsWith t '', The'' then ''The '' @ left t (int (length t) - 5) else t)"

fun find_videos_loop ::
  "(string \<rightharpoonup> nat) \<Rightarrow> string list \<Rightarrow> (nat \<times> Game) list \<Rightarrow> (nat \<times> Game) list option" where
  "find_videos_loop title_to_gameid_map [] gs = Some gs"
| "find_videos_loop title_to_gameid_map (f # fs) gs =
     (let basename = completeBaseName f;
          game_title = video_game_title basename;
          it = (case title_to_gameid_map game_title of
                  Some gameid \<Rightarrow> Some gameid
                | None \<Rightarrow> title_to_gameid_map (video_retry_title game_title))
      in case it of
           None \<Rightarrow> find_videos_loop title_to_gameid_map fs gs
         | Some gameid \<Rightarrow>
             (case map_of gs gameid of
                None \<Rightarrow> None
              | Some game \<Rightarrow>
                  find_videos_loop title_to_gameid_map fs
                    (games_set gs gameid (addFileMaybe VIDEOS f game))))"

definition find_videos_in ::
  "World \<Rightarrow> string \<Rightarrow> (string \<rightharpoonup> nat) \<Rightarrow> (nat \<times> Game) list \<Rightarrow> (nat \<times> Game) list option" where
  "find_videos_in w asset_dir title_to_gameid_map gs =
     find_videos_loop title_to_gameid_map (dir_files w asset_dir) gs"

text \<open>The loop of \<^verbatim>\<open>find_assets\<close> over the image categories.\<close>

fun find_image_assets ::
  "World \<Rightarrow> string \<Rightarrow> (string \<times> AssetType) list \<Rightarrow> (string \<rightharpoonup> nat) \<Rightarrow> (nat \<times> Game) list
    \<Rightarrow> (nat \<times> Game) list option" where
  "find_image_assets w images_root [] esc gs = Some gs"
| "find_image_assets w images_root ((dir, assetdir_type) # rest) esc gs =
     (case find_assets_in w (images_root @ dir) assetdir_type True esc gs of
        None \<Rightarrow> None
      | Some gs' \<Rightarrow> find_image_assets w images_root rest esc gs')"

definition find_assets ::
  "World \<Rightarrow> string \<Rightarrow> Platform \<Rightarrow> (string \<times> AssetType) list \<Rightarrow> SearchContext
    \<Rightarrow> SearchContext option" where
  "find_assets w lb_dir platform adm sctx =
     (case collection_childs sctx (plat_name platform) of
        None \<Rightarrow> Some sctx
      | Some childs \<Rightarrow>
          (case build_escaped_title_map childs (games sctx) of
             None \<Rightarrow> None
           | Some esc \<Rightarrow>
          (case find_image_assets w (lb_dir @ ''Images/'' @ plat_name platform @ ''/'') adm esc
                  (games sctx) of
             None \<Rightarrow> None
           | Some gs1 \<Rightarrow>
          (case find_assets_in w (lb_dir @ ''Music/'' @ plat_name platform @ ''/'') MUSIC False
                  esc gs1 of
             None \<Rightarrow> None
           | Some gs2 \<Rightarrow>
          (case build_title_map (\<lambda>t. t) childs gs2 Map.empty of
             None \<Rightarrow> None
           | Some title_to_gameid_map \<Rightarrow>
          (case find_videos_in w (lb_dir @ ''Videos/'' @ plat_name platform @ ''/'')
                  title_to_gameid_map gs2 of
             None \<Rightarrow> None
           | Some gs3 \<Rightarrow> Some (sctx\<lparr>games := gs3\<rparr>)))))))"

subsection \<open>findLists\<close>

text \<open>The loop of \<^verbatim>\<open>findLists\<close> over the platforms, and \<^verbatim>\<open>findLists\<close> from the point
  where the installation directory \<open>lb_dir\<close> is known and not empty.\<close>

fun process_platforms ::
  "World \<Rightarrow> string \<Rightarrow> (string \<rightharpoonup> Emulator) \<Rightarrow> Platform list \<Rightarrow> SearchContext
    \<Rightarrow> (SearchContext \<times> diag list) option" where
  "process_platforms w lb_dir emulators [] sctx = Some (sctx, [])"
| "process_platforms w lb_dir emulators (platform # rest) sctx =
     (case process_platform_xml w lb_dir platform emulators sctx of
        None \<Rightarrow> None
      | Some (sctx1, ds) \<Rightarrow>
          (case find_assets w lb_dir platform assetdir_map sctx1 of
             None \<Rightarrow> None
           | Some sctx2 \<Rightarrow>
               (case process_platforms w lb_dir emulators rest sctx2 of
                  None \<Rightarrow> None
                | Some (sctx3, ds') \<Rightarrow> Some (sctx3, ds @ ds'))))"

definition findLists :: "World \<Rightarrow> string \<Rightarrow> SearchContext \<Rightarrow> (SearchContext \<times> diag list) option" where
  "findLists w lb_dir sctx =
     (let (emu_data, ds) = read_emulators_xml w lb_dir
      in if emus emu_data = [] then Some (sctx, ds @ [Warn_no_emulators])
         else if platforms emu_data = [] then Some (sctx, ds @ [Warn_no_platforms])
         else (case process_platforms w lb_dir (map_of (emus emu_data)) (platforms emu_data)
                      sctx of
                 None \<Rightarrow> None
               | Some (sctx', ds') \<Rightarrow> Some (sctx', ds @ ds')))"

subsection \<open>Concrete inputs\<close>

text \<open>A small installation under \<open>/lb/\<close>: two game files, one emulator and two
  platform files exist. The registry defines the emulator \<open>ra\<close>, the platform \<open>SNES\<close>
  that refers to it and the platform \<open>GC\<close> that refers to an emulator nobody defines.
  The \<open>SNES\<close> file lists an additional application before the game it belongs to,
  two games, and a game whose file is missing. In this world a field map is iterated in
  the reverse of the order in which it was filled.\<close>

definition demo_finfo :: "string \<Rightarrow> string \<Rightarrow> QFileInfo" where
  "demo_finfo dir file =
     (let p = dir @ file;
          ex = (p \<in> set [''/lb/roms/a.rom'', ''/lb/roms/b.rom'', ''/lb/emu/retroarch'',
                          ''/lb/Data/Platforms/SNES.xml'', ''/lb/Data/Platforms/GC.xml''])
      in \<lparr>filePath = p, exists = ex, canonicalFilePath = (if ex then p else [])\<rparr>)"

definition demo_registry :: xml_doc where
  "demo_registry =
     \<lparr>root = Some ''LaunchBox'',
      children =
        [(''Emulator'', [(''ID'', ''ra''), (''ApplicationPath'', ''emu/retroarch''),
                         (''CommandLine'', ''-f'')]),
         (''EmulatorPlatform'', [(''Emulator'', ''ra''), (''Platform'', ''SNES'')]),
         (''EmulatorPlatform'', [(''Emulator'', ''dolphin''), (''Platform'', ''GC'')])],
      doc_error = None\<rparr>"

definition demo_snes :: xml_doc where
  "demo_snes =
     \<lparr>root = Some ''LaunchBox'',
      children =
        [(''AdditionalApplication'', [(''Id'', ''x1''), (''GameID'', ''g1''),
                                      (''ApplicationPath'', ''roms/b.rom''), (''Name'', ''Alt'')]),
         (''Game'', [(''ID'', ''g1''), (''ApplicationPath'', ''roms/a.rom''),
                     (''Title'', ''Zelda'')]),
         (''Game'', [(''ID'', ''g2''), (''ApplicationPath'', ''roms/b.rom''),
                     (''Title'', ''Mario'')]),
         (''Game'', [(''ID'', ''g3''), (''ApplicationPath'', ''roms/missing.rom'')])],
      doc_error = None\<rparr>"

text \<open>The single-precision numbers nearest to the decimal texts.\<close>

definition demo_toFloat :: "string \<Rightarrow> real option" where
  "demo_toFloat s =
     (if s = ''0.5'' then Some (1 / 2)
      else if s = ''0.3'' then Some (5033165 / 16777216)
      else if s = ''0.9'' then Some (7549747 / 8388608)
      else if s = ''0.0001'' then Some (13743895 / 137438953472)
      else if s = ''0.00005'' then Some (13743895 / 274877906944)
      else if s = ''0.00002'' then Some (2748779 / 137438953472)
      else None)"

definition demo_world :: World where
  "demo_world =
     \<lparr>finfo_in = demo_finfo, finfo_of = demo_finfo [], absolutePath = (\<lambda>p. ''/lb/emu''),
      toFloat = demo_toFloat, date_fromString = (\<lambda>s. None), dir_files = (\<lambda>d. []),
      open_xml = (\<lambda>p. if p = ''/lb/Data/Emulators.xml'' then Some demo_registry
                      else if p = ''/lb/Data/Platforms/SNES.xml'' then Some demo_snes
                      else None),
      iterate_fields = rev\<rparr>"

definition demo_emulators :: "(string \<times> Emulator) list" where
  "demo_emulators = [(''ra'', \<lparr>emu_app_path = ''/lb/emu/retroarch'', emu_cmd_params = ''-f''\<rparr>)]"

definition demo_platform :: Platform where
  "demo_platform =
     \<lparr>default_emu_id = ''ra'', plat_name = ''SNES'', plat_cmd_params = [],
      xml_path = ''/lb/Data/Platforms/SNES.xml''\<rparr>"

text \<open>The diagnostic of a platform removed for its missing emulator.\<close>

fun is_platform_removal :: "diag \<Rightarrow> bool" where
  "is_platform_removal (Warn_platform_missing_emulator n) = True"
| "is_platform_removal d = False"

definition empty_sctx :: SearchContext where
  "empty_sctx =
     \<lparr>games = [], path_to_gameid = Map.empty, collections = Map.empty,
      collection_childs = Map.empty\<rparr>"

subsection \<open>The field merge as a function of the field map\<close>

text \<open>
  The merge policy of the spec, written as a function of the field map instead of a loop:
  title last writer, description and release date first value, developer and publisher
  appended and deduplicated, rating replaced only while unset, emulator and command line
  overridden. Genres are left out: \<open>forget_genres\<close> erases them, \<open>field_genres\<close> is
  what one entry adds to them.
\<close>

definition merge_policy ::
  "World \<Rightarrow> (string \<rightharpoonup> Emulator) \<Rightarrow> (GameField \<rightharpoonup> string) \<Rightarrow> Game \<times> string \<times> string
    \<Rightarrow> Game \<times> string \<times> string" where
  "merge_policy w em m s =
     (case s of (g, a, p) \<Rightarrow>
        (g\<lparr>title := (case m TITLE of None \<Rightarrow> title g | Some v \<Rightarrow> v),
           description := (case m NOTES of
                             None \<Rightarrow> description g
                           | Some v \<Rightarrow> if description g = [] then v else description g),
           developers := (case m DEVELOPER of
                            None \<Rightarrow> developers g
                          | Some v \<Rightarrow> removeDuplicates (developers g @ [v])),
           publishers := (case m PUBLISHER of
                            None \<Rightarrow> publishers g
                          | Some v \<Rightarrow> removeDuplicates (publishers g @ [v])),
           release_date := (case m RELEASE of
                              None \<Rightarrow> release_date g
                            | Some v \<Rightarrow> if release_date g = None then date_fromString w v
                                        else release_date g),
           rating := (case m STARS of
                        None \<Rightarrow> rating g
                      | Some v \<Rightarrow>
                          (case toFloat w v of
                             None \<Rightarrow> rating g
                           | Some fval \<Rightarrow>
                               if rating g < float_0_0001 \<and> fval > rating g then fval
                               else rating g))\<rparr>,
         (case m EMULATOR of
            None \<Rightarrow> a
          | Some v \<Rightarrow> (case em v of None \<Rightarrow> a | Some e \<Rightarrow> emu_app_path e)),
         (case m EMULATOR_PARAMS of None \<Rightarrow> p | Some v \<Rightarrow> v)))"

definition forget_genres :: "Game \<times> string \<times> string \<Rightarrow> Game \<times> string \<times> string" where
  "forget_genres s = (case s of (g, a, p) \<Rightarrow> (g\<lparr>genres := []\<rparr>, a, p))"

definition field_genres :: "GameField \<times> string \<Rightarrow> string set" where
  "field_genres x =
     (case x of (k, v) \<Rightarrow>
        if k = GENRE then {v}
        else if k = PLAYMODE then set (map trimmed (split_on CHR '';'' v)) else {})"

text \<open>Merging one STARS value after the other into the same game record.\<close>

definition merge_stars ::
  "World \<Rightarrow> Platform \<Rightarrow> (string \<rightharpoonup> Emulator) \<Rightarrow> string list \<Rightarrow> Game \<Rightarrow> Game option" where
  "merge_stars w platform emulators vs g =
     fold (\<lambda>v og. Option.bind og (\<lambda>g. store_game_fields w g [(STARS, v)] platform emulators))
       vs (Some g)"

subsection \<open>The dedup invariant\<close>

text \<open>The canonical path of the file a game record was created from: \<^verbatim>\<open>Game(finfo)\<close>
  puts it first in the list of launch files, and nothing removes or reorders files.\<close>

definition source_path :: "Game \<Rightarrow> string" where
  "source_path g = canonicalFilePath (fileinfo (hd (files g)))"

text \<open>
  The invariant of the scan context: the game ids are \<open>0, \<dots>, size - 1\<close>; every game is
  registered in the dedup index under the canonical path of its source file, with its own
  id; the index and the child lists only hold ids of games.
\<close>

definition scan_inv :: "SearchContext \<Rightarrow> bool" where
  "scan_inv sctx \<longleftrightarrow>
     map fst (games sctx) = [0..<length (games sctx)]
     \<and> (\<forall>(i, g) \<in> set (games sctx).
           files g \<noteq> [] \<and> path_to_gameid sctx (source_path g) = Some i)
     \<and> (\<forall>p i. path_to_gameid sctx p = Some i \<longrightarrow> i < length (games sctx))
     \<and> (\<forall>n c. collection_childs sctx n = Some c \<longrightarrow> (\<forall>i \<in> set c. i < length (games sctx)))"

definition is_Game :: "xml_element \<Rightarrow> bool" where
  "is_Game e \<longleftrightarrow> fst e = ''Game''"

definition is_AdditionalApplication :: "xml_element \<Rightarrow> bool" where
  "is_AdditionalApplication e \<longleftrightarrow> fst e = ''AdditionalApplication''"

subsection \<open>The two passes over a platform file\<close>

text \<open>What the loop over the children of the root does with the \<^verbatim>\<open>Game\<close> elements, and
  the list of additional applications it collects.\<close>

fun read_games ::
  "World \<Rightarrow> string \<Rightarrow> string \<Rightarrow> Platform \<Rightarrow> (string \<rightharpoonup> Emulator) \<Rightarrow> xml_element list
    \<Rightarrow> SearchContext \<times> nat list \<times> (string \<rightharpoonup> nat)
    \<Rightarrow> ((SearchContext \<times> nat list \<times> (string \<rightharpoonup> nat)) \<times> diag list) option" where
  "read_games w xmlpath lb_dir platform emulators [] st = Some (st, [])"
| "read_games w xmlpath lb_dir platform emulators ((n, elem) # rest) st =
     (if n = ''Game''
      then (case platform_xml_read_game w xmlpath elem gamefield_map lb_dir platform
                   emulators st of
              None \<Rightarrow> None
            | Some (st', ds) \<Rightarrow>
                (case read_games w xmlpath lb_dir platform emulators rest st' of
                   None \<Rightarrow> None
                 | Some (r, ds') \<Rightarrow> Some (r, ds @ ds')))
      else read_games w xmlpath lb_dir platform emulators rest st)"

definition collected_addiapps :: "xml_element list \<Rightarrow> (AdditionalAppField \<times> string) list list" where
  "collected_addiapps es =
     map (\<lambda>e. collect_values addiappfield_map (snd e) []) (filter is_AdditionalApplication es)"

text \<open>The invariant of the state of the loop over a platform file: the context satisfies
  \<open>scan_inv\<close>, and the child list and the file-local id map only hold ids of games.\<close>

definition st_inv :: "SearchContext \<times> nat list \<times> (string \<rightharpoonup> nat) \<Rightarrow> bool" where
  "st_inv st \<longleftrightarrow>
     (case st of (sctx, childs, gameid_map) \<Rightarrow>
        scan_inv sctx
        \<and> (\<forall>i \<in> set childs. i < length (games sctx))
        \<and> (\<forall>k i. gameid_map k = Some i \<longrightarrow> i < length (games sctx)))"

text \<open>The ids of the games with their launch files: what the asset matcher leaves alone.\<close>

definition game_keys :: "(nat \<times> Game) list \<Rightarrow> (nat \<times> GameFile list) list" where
  "game_keys gs = map (\<lambda>(i, g). (i, files g)) gs"

subsection \<open>What the asset matchers attach\<close>

text \<open>
  For the statements about the matchers. \<open>title_index esc childs gs\<close> is the map that
  \<^verbatim>\<open>find_assets\<close> fills with \<^verbatim>\<open>emplace\<close> while it walks the child list: a name is
  mapped to the first child whose title, after \<open>esc\<close>, is that name.
  \<open>attach_files t lookup fs i g\<close> is the game \<open>g\<close> with id \<open>i\<close> after every file of
  \<open>fs\<close> that \<open>lookup\<close> sends to \<open>i\<close> has been handed to \<^verbatim>\<open>addFileMaybe\<close>, in the
  order of \<open>fs\<close>. \<open>chop3\<close> is \<^verbatim>\<open>basename.left(basename.length() - 3)\<close> written out.
  \<open>video_match m f\<close> is the iterator \<^verbatim>\<open>it\<close> of \<^verbatim>\<open>find_videos_in\<close> for the file \<open>f\<close>
  after its one or two lookups.
\<close>

definition title_index ::
  "(string \<Rightarrow> string) \<Rightarrow> nat list \<Rightarrow> (nat \<times> Game) list \<Rightarrow> (string \<rightharpoonup> nat)" where
  "title_index esc childs gs t =
     List.find (\<lambda>i. map_option (\<lambda>g. esc (title g)) (map_of gs i) = Some t) childs"

definition attach_files ::
  "AssetType \<Rightarrow> (string \<Rightarrow> nat option) \<Rightarrow> string list \<Rightarrow> nat \<Rightarrow> Game \<Rightarrow> Game" where
  "attach_files t lookup fs i g = fold (addFileMaybe t) (filter (\<lambda>f. lookup f = Some i) fs) g"

definition chop3 :: "string \<Rightarrow> string" where
  "chop3 b = (if length b < 3 then b else take (length b - 3) b)"

definition video_match :: "(string \<rightharpoonup> nat) \<Rightarrow> string \<Rightarrow> nat option" where
  "video_match m f =
     (case m (video_game_title (completeBaseName f)) of
        Some i \<Rightarrow> Some i
      | None \<Rightarrow> m (video_retry_title (video_game_title (completeBaseName f))))"

text \<open>A context with two games of the platform \<open>SNES\<close>, and the media files of two
  installations: one with images and music, one with videos.\<close>

definition demo_titled :: "string \<Rightarrow> string \<Rightarrow> Game" where
  "demo_titled file t = (new_Game (demo_finfo ''/lb/'' file))\<lparr>title := t\<rparr>"

definition demo_library :: SearchContext where
  "demo_library =
     \<lparr>games = [(0, demo_titled ''roms/a.rom'' ''Mario: Kart''),
               (1, demo_titled ''roms/b.rom'' ''The Metroid Prime'')],
      path_to_gameid = map_of [(''/lb/roms/a.rom'', 0), (''/lb/roms/b.rom'', 1)],
      collections = map_of [(''SNES'', \<lparr>coll_name = ''SNES''\<rparr>)],
      collection_childs = map_of [(''SNES'', [0, 1])]\<rparr>"

definition demo_images_music :: "string \<Rightarrow> string list" where
  "demo_images_music d =
     (if d = ''/lb/Images/SNES/Box - Front''
      then [''/lb/Images/SNES/Box - Front/Mario_ Kart.png'',
            ''/lb/Images/SNES/Box - Front/Mario_ Kart-01.png'',
            ''/lb/Images/SNES/Box - Front/Mario_ Kart-02.png'']
      else if d = ''/lb/Music/SNES/''
      then [''/lb/Music/SNES/The Metroid Prime-01.mp3'', ''/lb/Music/SNES/Mario_ Kart.mp3'']
      else [])"

definition demo_videos :: "string \<Rightarrow> string list" where
  "demo_videos d =
     (if d = ''/lb/Videos/SNES/''
      then [''/lb/Videos/SNES/(USA).mp4'',
            ''/lb/Videos/SNES/Metroid Prime, The (USA).mp4'',
            ''/lb/Videos/SNES/Mario - Kart (EU).mp4'',
            ''/lb/Videos/SNES/Mario - Kart (JP).mp4'']
      else [])"

subsection \<open>The platforms a registry declares\<close>

text \<open>
  The platform record that the loop of \<^verbatim>\<open>read_emulators_xml\<close> builds from one
  \<^verbatim>\<open>EmulatorPlatform\<close> element, and the candidates of a registry: the complete records of
  its \<^verbatim>\<open>EmulatorPlatform\<close> elements, in document order, whatever emulators it defines.
\<close>

definition platform_of :: "World \<Rightarrow> string \<Rightarrow> (string \<times> string) list \<Rightarrow> Platform" where
  "platform_of w lb_dir elem =
     (let p0 = read_platform_fields elem
                 \<lparr>default_emu_id = [], plat_name = [], plat_cmd_params = [], xml_path = []\<rparr>
      in if plat_name p0 \<noteq> []
         then p0\<lparr>xml_path := canonicalFilePath (finfo_of w
                  (lb_dir @ ''Data/Platforms/'' @ plat_name p0 @ ''.xml''))\<rparr>
         else p0)"

definition registry_platforms :: "World \<Rightarrow> string \<Rightarrow> xml_element list \<Rightarrow> Platform list" where
  "registry_platforms w lb_dir elems =
     filter (\<lambda>p. \<not> plat_incomplete p)
       (map (\<lambda>e. platform_of w lb_dir (snd e)) (filter (\<lambda>e. fst e = ''EmulatorPlatform'') elems))"

section \<open>Properties\<close>

subsection \<open>Launch command\<close>

lemma store_game_fields_returns:
  "emulators (default_emu_id platform) = Some e \<Longrightarrow>
   \<exists>g. store_game_fields w game flds platform emulators = Some g"
  by (simp add: store_game_fields_def Let_def split: prod.splits)

lemma store_game_fields_launch_cmd:
  "store_game_fields w game flds platform emulators = Some g \<Longrightarrow>
   \<exists>a p. launch_cmd g = launch_template a p"
  by (fastforce simp: store_game_fields_def Let_def split: prod.splits option.splits)

lemma launch_template_shape:
  "launch_template a p \<noteq> [] \<and> hd (launch_template a p) = CHR 0x22
   \<and> endsWith (launch_template a p) '' {file.path}''"
  by (simp add: launch_template_def endsWith_def)

lemma store_game_diags:
  assumes "store_game w finfo flds platform emulators sctx childs = Some (r, ds)"
  shows "ds = []"
proof (cases "path_to_gameid sctx (canonicalFilePath finfo) = None")
  case True
  then obtain g where g: "store_game_fields w (new_Game finfo) (iterate_fields w flds) platform
      emulators = Some g"
    using assms by (auto simp: store_game_def Let_def split: option.splits)
  then have "launch_cmd g \<noteq> []"
    using store_game_fields_launch_cmd[OF g] launch_template_shape by metis
  then show ?thesis
    using assms True g by (auto simp: store_game_def Let_def split: option.splits)
next
  case False
  then show ?thesis
    using assms by (auto simp: store_game_def Let_def split: option.splits)
qed

lemma store_game_returns:
  assumes "emulators (default_emu_id platform) = Some e"
  shows "\<exists>r. store_game w finfo flds platform emulators sctx childs = Some (r, [])"
proof -
  obtain g where g: "store_game_fields w (new_Game finfo) (iterate_fields w flds) platform
      emulators = Some g"
    using store_game_fields_returns[where emulators = emulators and platform = platform
        and e = e, OF assms] by blast
  have "store_game w finfo flds platform emulators sctx childs \<noteq> None"
    using g by (auto simp: store_game_def Let_def emplace_def split: option.splits)
  then obtain r ds where "store_game w finfo flds platform emulators sctx childs = Some (r, ds)"
    by (cases "store_game w finfo flds platform emulators sctx childs") auto
  then show ?thesis using store_game_diags by blast
qed



text \<open>
  Claim C2, at an input where the code and the claim differ. The platform has no
  command-line override, the game has no \<open>CommandLine\<close> field and the emulator's own
  default parameters are \<open>-f\<close>: the synthesized launch command carries the emulator's
  application path in the place of the parameters, not \<open>-f\<close>.
\<close>

theorem default_params_are_app_path:
  "map_option launch_cmd
     (store_game_fields demo_world (new_Game (demo_finfo ''/lb/'' ''roms/a.rom''))
        [(ID, ''1''), (PATH, ''roms/a.rom''), (TITLE, ''Zelda'')] demo_platform
        (map_of demo_emulators))
   = Some ([CHR 0x22] @ ''/lb/emu/retroarch'' @ [CHR 0x22] @ '' /lb/emu/retroarch {file.path}'')
   \<and> map_option emu_cmd_params (map_of demo_emulators (default_emu_id demo_platform))
     = Some ''-f''"
  by (simp add: store_game_fields_def demo_platform_def demo_emulators_def new_Game_def
      launch_template_def)

subsection \<open>Rating\<close>

lemma store_game_fields_stars:
  assumes "emulators (default_emu_id platform) = Some e"
  shows "\<exists>g'. store_game_fields w g [(STARS, v)] platform emulators = Some g' \<and>
           rating g' =
             (if rating g < float_0_0001
              then (case toFloat w v of None \<Rightarrow> rating g
                    | Some fval \<Rightarrow> if fval > rating g then fval else rating g)
              else rating g)"
  using assms by (simp add: store_game_fields_def Let_def split: option.splits)

lemma merge_stars_Cons:
  assumes "store_game_fields w g [(STARS, v)] platform emulators = Some ga"
  shows "merge_stars w platform emulators (v # vs) g = merge_stars w platform emulators vs ga"
  using assms by (simp add: merge_stars_def)

lemma merge_stars_ignored:
  assumes em: "emulators (default_emu_id platform) = Some e"
    and r: "float_0_0001 \<le> rating g"
  shows "\<exists>g'. merge_stars w platform emulators vs g = Some g' \<and> rating g' = rating g"
  using r
proof (induction vs arbitrary: g)
  case Nil
  show ?case by (simp add: merge_stars_def)
next
  case (Cons v vs)
  obtain ga where ga: "store_game_fields w g [(STARS, v)] platform emulators = Some ga"
    and ra: "rating ga = rating g"
    using store_game_fields_stars[where emulators = emulators and platform = platform
        and e = e and w = w and g = g and v = v, OF em] Cons.prems by auto
  from Cons.IH[of ga] ra Cons.prems show ?case
    unfolding merge_stars_Cons[OF ga] by simp
qed

text \<open>
  Claim C3, as amended. A STARS value replaces the rating only while the rating is unset
  (below \<^verbatim>\<open>0.0001f\<close>) and the value parses to a number larger than the rating. Merging
  the values \<open>vs\<close> one after the other therefore leaves a rating that is already set as it
  is; into an unset rating it stores the first parsed value of at least \<^verbatim>\<open>0.0001f\<close> and
  ignores every value after it, larger or not; when no parsed value reaches \<^verbatim>\<open>0.0001f\<close>
  the result is the maximum of the old rating and the parsed values.
\<close>

theorem stars_merge_rating:
  assumes "emulators (default_emu_id platform) = Some e"
  shows "\<exists>g'. merge_stars w platform emulators vs g = Some g' \<and>
           rating g' =
             (if float_0_0001 \<le> rating g then rating g
              else (case List.find (\<lambda>x. float_0_0001 \<le> x) (List.map_filter (toFloat w) vs) of
                      Some x \<Rightarrow> x
                    | None \<Rightarrow> fold max (List.map_filter (toFloat w) vs) (rating g)))"
proof (induction vs arbitrary: g)
  case Nil
  show ?case by (simp add: merge_stars_def)
next
  case (Cons v vs)
  obtain ga where ga: "store_game_fields w g [(STARS, v)] platform emulators = Some ga"
    and ra: "rating ga =
             (if rating g < float_0_0001
              then (case toFloat w v of None \<Rightarrow> rating g
                    | Some fval \<Rightarrow> if fval > rating g then fval else rating g)
              else rating g)"
    using store_game_fields_stars[where emulators = emulators and platform = platform
        and e = e and w = w and g = g and v = v, OF assms] by auto
  obtain g' where g': "merge_stars w platform emulators vs ga = Some g'"
    and r': "rating g' =
             (if float_0_0001 \<le> rating ga then rating ga
              else (case List.find (\<lambda>x. float_0_0001 \<le> x) (List.map_filter (toFloat w) vs) of
                      Some x \<Rightarrow> x
                    | None \<Rightarrow> fold max (List.map_filter (toFloat w) vs) (rating ga)))"
    using Cons.IH[of ga] by auto
  have "rating g' =
          (if float_0_0001 \<le> rating g then rating g
           else (case List.find (\<lambda>x. float_0_0001 \<le> x) (List.map_filter (toFloat w) (v # vs)) of
                   Some x \<Rightarrow> x
                 | None \<Rightarrow> fold max (List.map_filter (toFloat w) (v # vs)) (rating g)))"
  proof (cases "float_0_0001 \<le> rating g")
    case True
    then show ?thesis using r' ra by simp
  next
    case unset: False
    show ?thesis
    proof (cases "toFloat w v")
      case None
      then show ?thesis using unset r' ra by (simp cong: option.case_cong)
    next
      case (Some x)
      show ?thesis
      proof (cases "float_0_0001 \<le> x")
        case True
        then have "rating ga = x" using unset ra Some by simp
        then show ?thesis using unset True r' Some by (simp cong: option.case_cong)
      next
        case False
        then have "rating ga = max x (rating g)" "\<not> float_0_0001 \<le> rating ga"
          using unset ra Some by (auto simp: max_def)
        then show ?thesis using unset False r' Some by (simp cong: option.case_cong)
      qed
    qed
  qed
  then show ?case using g' unfolding merge_stars_Cons[OF ga] by simp
qed

theorem stars_merge_rating_witness:
  "(\<exists>g'. merge_stars demo_world demo_platform (map_of demo_emulators)
            [''0.5'', ''0.3'', ''0.9''] (new_Game (demo_finfo ''/lb/'' ''roms/a.rom'')) = Some g'
          \<and> rating g' = 1 / 2)
   \<and> (\<exists>g'. merge_stars demo_world demo_platform (map_of demo_emulators)
            [''0.00005'', ''0.00002'', ''x'', ''0.9'', ''0.5'']
            (new_Game (demo_finfo ''/lb/'' ''roms/a.rom'')) = Some g'
          \<and> rating g' = 7549747 / 8388608)
   \<and> (\<exists>g'. merge_stars demo_world demo_platform (map_of demo_emulators)
            [''0.00005'', ''0.00002'']
            (new_Game (demo_finfo ''/lb/'' ''roms/a.rom'')) = Some g'
          \<and> rating g' = 13743895 / 274877906944)
   \<and> (\<exists>g'. merge_stars demo_world demo_platform (map_of demo_emulators)
            [''0.0001'', ''0.5'']
            (new_Game (demo_finfo ''/lb/'' ''roms/a.rom'')) = Some g'
          \<and> rating g' = 13743895 / 137438953472)"
  using
    stars_merge_rating[where w = demo_world and platform = demo_platform
      and emulators = "map_of demo_emulators" and vs = "[''0.5'', ''0.3'', ''0.9'']"
      and g = "new_Game (demo_finfo ''/lb/'' ''roms/a.rom'')"
      and e = "\<lparr>emu_app_path = ''/lb/emu/retroarch'', emu_cmd_params = ''-f''\<rparr>"]
    stars_merge_rating[where w = demo_world and platform = demo_platform
      and emulators = "map_of demo_emulators"
      and vs = "[''0.00005'', ''0.00002'', ''x'', ''0.9'', ''0.5'']"
      and g = "new_Game (demo_finfo ''/lb/'' ''roms/a.rom'')"
      and e = "\<lparr>emu_app_path = ''/lb/emu/retroarch'', emu_cmd_params = ''-f''\<rparr>"]
    stars_merge_rating[where w = demo_world and platform = demo_platform
      and emulators = "map_of demo_emulators" and vs = "[''0.00005'', ''0.00002'']"
      and g = "new_Game (demo_finfo ''/lb/'' ''roms/a.rom'')"
      and e = "\<lparr>emu_app_path = ''/lb/emu/retroarch'', emu_cmd_params = ''-f''\<rparr>"]
    stars_merge_rating[where w = demo_world and platform = demo_platform
      and emulators = "map_of demo_emulators" and vs = "[''0.0001'', ''0.5'']"
      and g = "new_Game (demo_finfo ''/lb/'' ''roms/a.rom'')"
      and e = "\<lparr>emu_app_path = ''/lb/emu/retroarch'', emu_cmd_params = ''-f''\<rparr>"]
  by (simp add: demo_emulators_def demo_platform_def demo_world_def demo_toFloat_def
      new_Game_def float_0_0001_def)

text \<open>The claim as stated fails: after the merges \<open>0.5\<close>, \<open>0.3\<close>, \<open>0.9\<close> into a fresh
  game the rating is \<open>0.5\<close>, not the number that \<open>0.9\<close> parses to.\<close>

theorem stars_max_counterexample:
  "map_option rating
     (merge_stars demo_world demo_platform (map_of demo_emulators) [''0.5'', ''0.3'', ''0.9'']
        (new_Game (demo_finfo ''/lb/'' ''roms/a.rom'')))
   = Some (1 / 2)
   \<and> map_option rating
     (merge_stars demo_world demo_platform (map_of demo_emulators) [''0.5'', ''0.3'', ''0.9'']
        (new_Game (demo_finfo ''/lb/'' ''roms/a.rom'')))
   \<noteq> toFloat demo_world ''0.9''"
  by (simp add: merge_stars_def store_game_fields_def demo_platform_def demo_emulators_def
      new_Game_def demo_world_def demo_toFloat_def float_0_0001_def)

subsection \<open>Iteration order of the field map\<close>

lemma set_removeDuplicates [simp]: "set (removeDuplicates xs) = set xs"
  by (simp add: removeDuplicates_def)

lemma distinct_removeDuplicates [simp]: "distinct (removeDuplicates xs)"
  by (simp add: removeDuplicates_def)

lemma merge_policy_step:
  assumes "m k = None"
  shows "forget_genres (merge_policy w em m (store_field w em (k, v) s)) =
         forget_genres (merge_policy w em (m(k \<mapsto> v)) s)"
proof -
  obtain g a p where s: "s = (g, a, p)" by (cases s)
  show ?thesis
    unfolding s using assms
    by (cases k) (simp_all add: merge_policy_def forget_genres_def split: option.splits)
qed

text \<open>Apart from the genres, the loop computes the merge policy of the field map.\<close>

lemma fold_merge_policy:
  "distinct (map fst xs) \<Longrightarrow>
   forget_genres (fold (store_field w em) xs s) = forget_genres (merge_policy w em (map_of xs) s)"
proof (induction xs arbitrary: s)
  case Nil
  show ?case by (cases s) (simp add: merge_policy_def forget_genres_def)
next
  case (Cons x xs)
  obtain k v where x: "x = (k, v)" by (cases x)
  from Cons.prems have none: "map_of xs k = None" and d: "distinct (map fst xs)"
    by (auto simp: x map_of_eq_None_iff)
  have "forget_genres (fold (store_field w em) (x # xs) s) =
        forget_genres (merge_policy w em (map_of xs) (store_field w em (k, v) s))"
    using Cons.IH[OF d] by (simp add: x)
  also have "\<dots> = forget_genres (merge_policy w em ((map_of xs)(k \<mapsto> v)) s)"
    using none by (rule merge_policy_step)
  finally show ?case unfolding x map_of.simps fst_conv snd_conv .
qed

lemma genres_step:
  "set (genres (fst (store_field w em x s))) = set (genres (fst s)) \<union> field_genres x"
  by (cases "(w, em, x, s)" rule: store_field.cases)
     (simp_all add: field_genres_def split: option.splits)

lemma genres_fold:
  "set (genres (fst (fold (store_field w em) xs s))) =
   set (genres (fst s)) \<union> (\<Union>x\<in>set xs. field_genres x)"
proof (induction xs arbitrary: s)
  case Nil
  show ?case by simp
next
  case (Cons x xs)
  show ?case using Cons.IH[of "store_field w em x s"] by (auto simp: genres_step)
qed

lemma genres_only_GENRE:
  "distinct (map fst xs) \<Longrightarrow> map_of xs PLAYMODE = None \<Longrightarrow>
   genres (fst (fold (store_field w em) xs s)) =
     (case map_of xs GENRE of
        None \<Rightarrow> genres (fst s)
      | Some v \<Rightarrow> removeDuplicates (genres (fst s) @ [v]))"
proof (induction xs arbitrary: s)
  case Nil
  show ?case by simp
next
  case (Cons x xs)
  obtain k v where x: "x = (k, v)" by (cases x)
  obtain g a p where s: "s = (g, a, p)" by (cases s)
  from Cons.prems have none: "map_of xs k = None" and d: "distinct (map fst xs)"
    and pm: "map_of xs PLAYMODE = None" and k: "k \<noteq> PLAYMODE"
    by (auto simp: x map_of_eq_None_iff split: if_splits)
  show ?case
    using Cons.IH[OF d pm, of "store_field w em (k, v) s"] none k
    unfolding x s
    by (cases k) (simp_all split: option.splits)
qed

lemma genres_only_PLAYMODE:
  "distinct (map fst xs) \<Longrightarrow> map_of xs GENRE = None \<Longrightarrow>
   genres (fst (fold (store_field w em) xs s)) =
     (case map_of xs PLAYMODE of
        None \<Rightarrow> genres (fst s)
      | Some v \<Rightarrow> removeDuplicates (genres (fst s) @ map trimmed (split_on CHR '';'' v)))"
proof (induction xs arbitrary: s)
  case Nil
  show ?case by simp
next
  case (Cons x xs)
  obtain k v where x: "x = (k, v)" by (cases x)
  obtain g a p where s: "s = (g, a, p)" by (cases s)
  from Cons.prems have none: "map_of xs k = None" and d: "distinct (map fst xs)"
    and pm: "map_of xs GENRE = None" and k: "k \<noteq> GENRE"
    by (auto simp: x map_of_eq_None_iff split: if_splits)
  show ?case
    using Cons.IH[OF d pm, of "store_field w em (k, v) s"] none k
    unfolding x s
    by (cases k) (simp_all split: option.splits)
qed

lemma forget_genres_eqD:
  "forget_genres (g, a, p) = forget_genres (g', a', p') \<Longrightarrow>
   g\<lparr>genres := []\<rparr> = g'\<lparr>genres := []\<rparr> \<and> a = a' \<and> p = p'"
  by (simp add: forget_genres_def)

lemma fold_order_forget:
  assumes "distinct (map fst fa)" "distinct (map fst fb)" "set fa = set fb"
  shows "forget_genres (fold (store_field w em) fa s) = forget_genres (fold (store_field w em) fb s)"
proof -
  have "map_of fa = map_of fb"
    using assms by (simp add: map_of_inject_set)
  then show ?thesis
    using assms by (simp add: fold_merge_policy)
qed

lemma fold_order_genres_set:
  assumes "set fa = set fb"
  shows "set (genres (fst (fold (store_field w em) fa s))) =
         set (genres (fst (fold (store_field w em) fb s)))"
  using assms by (simp add: genres_fold)

lemma fold_order_genres_list:
  assumes "distinct (map fst fa)" "distinct (map fst fb)" "set fa = set fb"
    and "GENRE \<notin> fst ` set fa \<or> PLAYMODE \<notin> fst ` set fa"
  shows "genres (fst (fold (store_field w em) fa s)) =
         genres (fst (fold (store_field w em) fb s))"
proof -
  have m: "map_of fa = map_of fb"
    using assms by (simp add: map_of_inject_set)
  from assms(4) show ?thesis
  proof
    assume "GENRE \<notin> fst ` set fa"
    then have "map_of fa GENRE = None" "map_of fb GENRE = None"
      using m by (simp_all add: map_of_eq_None_iff[symmetric])
    then show ?thesis
      using assms(1,2) m by (simp add: genres_only_PLAYMODE)
  next
    assume "PLAYMODE \<notin> fst ` set fa"
    then have "map_of fa PLAYMODE = None" "map_of fb PLAYMODE = None"
      using m by (simp_all add: map_of_eq_None_iff[symmetric])
    then show ?thesis
      using assms(1,2) m by (simp add: genres_only_GENRE)
  qed
qed

text \<open>
  Claim C9, as amended. For two iteration orders \<open>fa\<close>, \<open>fb\<close> of the same field map, the
  two game records agree on every field but the genre list, and the two genre lists hold
  the same entries. When the map does not hold both a GENRE and a PLAYMODE entry the two
  records are identical.
\<close>

theorem field_merge_order:
  assumes "distinct (map fst fa)" and "distinct (map fst fb)" and "set fa = set fb"
    and "emulators (default_emu_id platform) = Some e"
  shows "\<exists>ga gb. store_game_fields w game fa platform emulators = Some ga \<and>
           store_game_fields w game fb platform emulators = Some gb \<and>
           ga\<lparr>genres := []\<rparr> = gb\<lparr>genres := []\<rparr> \<and>
           set (genres ga) = set (genres gb) \<and>
           (GENRE \<notin> fst ` set fa \<or> PLAYMODE \<notin> fst ` set fa \<longrightarrow> ga = gb)"
proof -
  let ?s = "(game, emu_app_path e,
             if plat_cmd_params platform = [] then emu_app_path e else plat_cmd_params platform)"
  obtain h1 a1 p1 where r1: "fold (store_field w emulators) fa ?s = (h1, a1, p1)"
    by (cases "fold (store_field w emulators) fa ?s")
  obtain h2 a2 p2 where r2: "fold (store_field w emulators) fb ?s = (h2, a2, p2)"
    by (cases "fold (store_field w emulators) fb ?s")
  have "forget_genres (h1, a1, p1) = forget_genres (h2, a2, p2)"
    using fold_order_forget[OF assms(1-3), of w emulators ?s] by (simp only: r1 r2)
  then have eq: "h1\<lparr>genres := []\<rparr> = h2\<lparr>genres := []\<rparr>" "a1 = a2" "p1 = p2"
    by (auto dest: forget_genres_eqD)
  have gs: "set (genres h1) = set (genres h2)"
    using fold_order_genres_set[OF assms(3), of w emulators ?s] by (simp only: r1 r2 fst_conv)
  have gl: "genres h1 = genres h2"
    if "GENRE \<notin> fst ` set fa \<or> PLAYMODE \<notin> fst ` set fa"
    using fold_order_genres_list[OF assms(1-3) that, of w emulators ?s]
    by (simp only: r1 r2 fst_conv)
  have full: "h1 = h2" if "GENRE \<notin> fst ` set fa \<or> PLAYMODE \<notin> fst ` set fa"
  proof -
    have "h1 = h1\<lparr>genres := genres h1\<rparr>" by simp
    also have "\<dots> = (h1\<lparr>genres := []\<rparr>)\<lparr>genres := genres h2\<rparr>" using gl[OF that] by simp
    also have "\<dots> = (h2\<lparr>genres := []\<rparr>)\<lparr>genres := genres h2\<rparr>" by (simp only: eq(1))
    also have "\<dots> = h2" by simp
    finally show ?thesis .
  qed
  let ?fin = "\<lambda>h a p. h\<lparr>launch_cmd := launch_template a p, launch_workdir := absolutePath w a\<rparr>"
  have s1: "store_game_fields w game fa platform emulators = Some (?fin h1 a1 p1)"
    using assms(4) r1 by (simp add: store_game_fields_def)
  have s2: "store_game_fields w game fb platform emulators = Some (?fin h2 a2 p2)"
    using assms(4) r2 by (simp add: store_game_fields_def)
  have e1: "(?fin h1 a1 p1)\<lparr>genres := []\<rparr> = (?fin h2 a2 p2)\<lparr>genres := []\<rparr>"
  proof -
    have "(?fin h1 a1 p1)\<lparr>genres := []\<rparr> = ?fin (h1\<lparr>genres := []\<rparr>) a1 p1" by simp
    also have "\<dots> = ?fin (h2\<lparr>genres := []\<rparr>) a2 p2" by (simp only: eq)
    also have "\<dots> = (?fin h2 a2 p2)\<lparr>genres := []\<rparr>" by simp
    finally show ?thesis .
  qed
  have e2: "set (genres (?fin h1 a1 p1)) = set (genres (?fin h2 a2 p2))"
    using gs by simp
  have e3: "?fin h1 a1 p1 = ?fin h2 a2 p2"
    if "GENRE \<notin> fst ` set fa \<or> PLAYMODE \<notin> fst ` set fa"
    using full[OF that] eq(2,3) by simp
  show ?thesis
    using s1 s2 e1 e2 e3 by (intro exI[of _ "?fin h1 a1 p1"] exI[of _ "?fin h2 a2 p2"]) auto
qed

theorem field_merge_order_witness:
  "\<exists>g. store_game_fields demo_world (new_Game (demo_finfo ''/lb/'' ''roms/a.rom''))
          [(TITLE, ''Zelda''), (GENRE, ''Action'')] demo_platform (map_of demo_emulators) = Some g
       \<and> store_game_fields demo_world (new_Game (demo_finfo ''/lb/'' ''roms/a.rom''))
          [(GENRE, ''Action''), (TITLE, ''Zelda'')] demo_platform (map_of demo_emulators) = Some g"
proof -
  have e: "map_of demo_emulators (default_emu_id demo_platform)
           = Some \<lparr>emu_app_path = ''/lb/emu/retroarch'', emu_cmd_params = ''-f''\<rparr>"
    by (simp add: demo_emulators_def demo_platform_def)
  have d: "distinct (map fst [(TITLE, ''Zelda''), (GENRE, ''Action'')])"
    "distinct (map fst [(GENRE, ''Action''), (TITLE, ''Zelda'')])"
    "set [(TITLE, ''Zelda''), (GENRE, ''Action'')] = set [(GENRE, ''Action''), (TITLE, ''Zelda'')]"
    by auto
  have n: "GENRE \<notin> fst ` set [(TITLE, ''Zelda''), (GENRE, ''Action'')]
           \<or> PLAYMODE \<notin> fst ` set [(TITLE, ''Zelda''), (GENRE, ''Action'')]"
    by simp
  from field_merge_order[where fa = "[(TITLE, ''Zelda''), (GENRE, ''Action'')]"
      and fb = "[(GENRE, ''Action''), (TITLE, ''Zelda'')]"
      and emulators = "map_of demo_emulators" and platform = demo_platform
      and w = demo_world and game = "new_Game (demo_finfo ''/lb/'' ''roms/a.rom'')", OF d e] n
  show ?thesis by blast
qed

text \<open>The claim as stated fails for a map with a GENRE and a PLAYMODE entry: the two
  iteration orders give two different genre lists.\<close>

theorem field_merge_order_counterexample:
  "map_option genres
     (store_game_fields demo_world (new_Game (demo_finfo ''/lb/'' ''roms/a.rom''))
        [(GENRE, ''Action''), (PLAYMODE, ''Co-op'')] demo_platform (map_of demo_emulators))
   = Some [''Action'', ''Co-op'']
   \<and> map_option genres
     (store_game_fields demo_world (new_Game (demo_finfo ''/lb/'' ''roms/a.rom''))
        [(PLAYMODE, ''Co-op''), (GENRE, ''Action'')] demo_platform (map_of demo_emulators))
   = Some [''Co-op'', ''Action'']"
  by (simp add: store_game_fields_def demo_platform_def demo_emulators_def new_Game_def
      removeDuplicates_def trimmed_def isSpace_def Let_def)

subsection \<open>Asset matching\<close>

lemma games_set_map:
  assumes "distinct (map fst gs)" and "map_of gs k = Some g"
  shows "games_set gs k (F g) = map (\<lambda>(i, x). (i, if i = k then F x else x)) gs"
  unfolding games_set_def
proof (rule map_cong[OF refl])
  fix p assume p: "p \<in> set gs"
  obtain i x where ix: "p = (i, x)" by (cases p)
  have "i = k \<Longrightarrow> x = g"
    using assms p ix by (metis map_of_eq_Some_iff option.inject)
  then show "(case p of (k', g') \<Rightarrow> if k' = k then (k', F g) else (k', g')) =
             (case p of (i, x) \<Rightarrow> (i, if i = k then F x else x))"
    unfolding ix by auto
qed

lemma map_fst_attach: "map fst (map (\<lambda>(i, x). (i, F i x)) gs) = map fst gs"
  by (induction gs) auto

lemma attach_files_Nil: "attach_files t lookup [] i g = g"
  by (simp add: attach_files_def)

lemma attach_files_Cons:
  "attach_files t lookup (f # fs) i g =
     attach_files t lookup fs i (if lookup f = Some i then addFileMaybe t f g else g)"
  by (simp add: attach_files_def)

lemma find_assets_loop_map:
  assumes "distinct (map fst gs)" and "ran m \<subseteq> fst ` set gs"
  shows "find_assets_loop t h m fs gs =
           Some (map (\<lambda>(i, g). (i, attach_files t
                   (\<lambda>f. m (asset_game_title h (completeBaseName f))) fs i g)) gs)"
  using assms
proof (induction fs arbitrary: gs)
  case Nil
  show ?case by (simp add: attach_files_Nil)
next
  case (Cons f fs)
  let ?look = "\<lambda>f. m (asset_game_title h (completeBaseName f))"
  show ?case
  proof (cases "?look f")
    case None
    then show ?thesis using Cons by (simp add: attach_files_Cons Let_def)
  next
    case (Some k)
    then have "k \<in> fst ` set gs" using Cons.prems(2) by (auto simp: ran_def)
    then obtain g where g: "map_of gs k = Some g"
      by (metis domD dom_map_of_conv_image_fst)
    let ?gs = "map (\<lambda>(i, x). (i, if i = k then addFileMaybe t f x else x)) gs"
    have gs: "games_set gs k (addFileMaybe t f g) = ?gs"
      by (rule games_set_map[OF Cons.prems(1) g])
    have keys: "map fst ?gs = map fst gs" by (rule map_fst_attach)
    have d: "distinct (map fst ?gs)" "ran m \<subseteq> fst ` set ?gs"
      using Cons.prems keys by (simp_all only: flip: set_map) 
    have "find_assets_loop t h m (f # fs) gs = find_assets_loop t h m fs ?gs"
      using Some g gs by (simp add: Let_def)
    also have "\<dots> = Some (map (\<lambda>(i, g). (i, attach_files t ?look fs i g)) ?gs)"
      by (rule Cons.IH[OF d])
    also have "map (\<lambda>(i, g). (i, attach_files t ?look fs i g)) ?gs =
               map (\<lambda>(i, g). (i, attach_files t ?look (f # fs) i g)) gs"
      using Some by (auto simp: attach_files_Cons)
    finally show ?thesis .
  qed
qed

lemma find_videos_loop_map:
  assumes "distinct (map fst gs)" and "ran m \<subseteq> fst ` set gs"
  shows "find_videos_loop m fs gs =
           Some (map (\<lambda>(i, g). (i, attach_files VIDEOS (video_match m) fs i g)) gs)"
  using assms
proof (induction fs arbitrary: gs)
  case Nil
  show ?case by (simp add: attach_files_Nil)
next
  case (Cons f fs)
  show ?case
  proof (cases "video_match m f")
    case None
    then have "find_videos_loop m (f # fs) gs = find_videos_loop m fs gs"
      by (simp add: video_match_def Let_def split: option.splits)
    then show ?thesis using None Cons by (simp add: attach_files_Cons del: find_videos_loop.simps)
  next
    case (Some k)
    then have "k \<in> ran m" by (auto simp: video_match_def ran_def split: option.splits)
    then have "k \<in> fst ` set gs" using Cons.prems(2) by auto
    then obtain g where g: "map_of gs k = Some g"
      by (metis domD dom_map_of_conv_image_fst)
    let ?gs = "map (\<lambda>(i, x). (i, if i = k then addFileMaybe VIDEOS f x else x)) gs"
    have gs: "games_set gs k (addFileMaybe VIDEOS f g) = ?gs"
      by (rule games_set_map[OF Cons.prems(1) g])
    have keys: "map fst ?gs = map fst gs" by (rule map_fst_attach)
    have d: "distinct (map fst ?gs)" "ran m \<subseteq> fst ` set ?gs"
      using Cons.prems keys by (simp_all only: flip: set_map) 
    have "find_videos_loop m (f # fs) gs = find_videos_loop m fs ?gs"
      using Some g gs by (simp add: video_match_def Let_def split: option.splits)
    also have "\<dots> = Some (map (\<lambda>(i, g). (i, attach_files VIDEOS (video_match m) fs i g)) ?gs)"
      by (rule Cons.IH[OF d])
    also have "map (\<lambda>(i, g). (i, attach_files VIDEOS (video_match m) fs i g)) ?gs =
               map (\<lambda>(i, g). (i, attach_files VIDEOS (video_match m) (f # fs) i g)) gs"
      using Some by (auto simp: attach_files_Cons)
    finally show ?thesis .
  qed
qed


lemma find_image_assets_map:
  assumes "distinct (map fst gs)" and "ran m \<subseteq> fst ` set gs"
  shows "find_image_assets w images_root adm m gs =
           Some (map (\<lambda>(i, g). (i, fold (\<lambda>(dir, ty). attach_files ty
                   (\<lambda>f. m (asset_game_title True (completeBaseName f)))
                   (dir_files w (images_root @ dir)) i) adm g)) gs)"
  using assms
proof (induction adm arbitrary: gs)
  case Nil
  show ?case by simp
next
  case (Cons a adm)
  obtain dir ty where a: "a = (dir, ty)" by (cases a)
  let ?look = "\<lambda>f. m (asset_game_title True (completeBaseName f))"
  let ?gs = "map (\<lambda>(i, g). (i, attach_files ty ?look (dir_files w (images_root @ dir)) i g)) gs"
  have s: "find_assets_in w (images_root @ dir) ty True m gs = Some ?gs"
    unfolding find_assets_in_def by (rule find_assets_loop_map[OF Cons.prems])
  have keys: "map fst ?gs = map fst gs" by (rule map_fst_attach)
  have d: "distinct (map fst ?gs)" "ran m \<subseteq> fst ` set ?gs"
    using Cons.prems keys by (simp_all only: flip: set_map)
  show ?case
    unfolding a using s Cons.IH[OF d] by (simp add: case_prod_beta comp_def)
qed

lemma title_index_Cons:
  "title_index esc (c # childs) gs t =
     (if map_option (\<lambda>g. esc (title g)) (map_of gs c) = Some t then Some c
      else title_index esc childs gs t)"
  by (auto simp: title_index_def)

lemma build_title_map_index:
  assumes "set childs \<subseteq> fst ` set gs"
  shows "build_title_map esc childs gs out =
           Some (\<lambda>t. case out t of Some i \<Rightarrow> Some i | None \<Rightarrow> title_index esc childs gs t)"
  using assms
proof (induction childs arbitrary: out)
  case Nil
  have "(\<lambda>t. case out t of Some i \<Rightarrow> Some i | None \<Rightarrow> title_index esc [] gs t) = out"
    by (rule ext) (simp add: title_index_def split: option.splits)
  then show ?case by simp
next
  case (Cons c childs)
  then obtain g where g: "map_of gs c = Some g"
    by (metis domD dom_map_of_conv_image_fst list.set_intros(1) subsetD)
  have "(\<lambda>t. case emplace out (esc (title g)) c t of Some i \<Rightarrow> Some i
              | None \<Rightarrow> title_index esc childs gs t) =
        (\<lambda>t. case out t of Some i \<Rightarrow> Some i | None \<Rightarrow> title_index esc (c # childs) gs t)"
    by (rule ext) (auto simp: emplace_def title_index_Cons g split: option.splits)
  then show ?case using Cons g by simp
qed

lemma build_title_map_empty:
  "set childs \<subseteq> fst ` set gs \<Longrightarrow>
   build_title_map esc childs gs Map.empty = Some (title_index esc childs gs)"
  by (simp add: build_title_map_index)

lemma ran_title_index: "ran (title_index esc childs gs) \<subseteq> set childs"
  by (auto simp: ran_def title_index_def find_Some_iff)

lemma map_of_attach:
  "map_of (map (\<lambda>(i, x). (i, F i x)) gs) k = map_option (F k) (map_of gs k)"
  by (induction gs) auto

lemma title_addFileMaybe [simp]: "title (addFileMaybe t p g) = title g"
  by (simp add: addFileMaybe_def)

lemma title_attach_files [simp]: "title (attach_files t lookup fs i g) = title g"
proof -
  have "title (fold (addFileMaybe t) xs g) = title g" for xs
    by (induction xs arbitrary: g) simp_all
  then show ?thesis by (simp add: attach_files_def)
qed

lemma title_index_attach:
  assumes "\<And>i x. title (F i x) = title x"
  shows "title_index esc childs (map (\<lambda>(i, x). (i, F i x)) gs) = title_index esc childs gs"
  by (rule ext) (simp add: title_index_def map_of_attach option.map_comp comp_def assms)


lemma asset_game_title_chop3: "asset_game_title True b = chop3 b"
  by (auto simp: asset_game_title_def left_def chop3_def nat_diff_distrib')

lemma asset_game_title_whole: "asset_game_title False b = b"
  by (simp add: asset_game_title_def)

lemma find_assets_in_map:
  assumes "distinct (map fst gs)" and "ran m \<subseteq> fst ` set gs"
  shows "find_assets_in w dir ty h m gs =
           Some (map (\<lambda>(i, g). (i, attach_files ty
                   (\<lambda>f. m (if h then chop3 (completeBaseName f) else completeBaseName f))
                   (dir_files w dir) i g)) gs)"
proof -
  have "(\<lambda>f. m (asset_game_title h (completeBaseName f))) =
        (\<lambda>f. m (if h then chop3 (completeBaseName f) else completeBaseName f))"
    by (rule ext) (simp add: asset_game_title_chop3 asset_game_title_whole)
  then show ?thesis
    unfolding find_assets_in_def using find_assets_loop_map[OF assms, of ty h] by simp
qed

lemma case_map_option:
  "(case x of None \<Rightarrow> None | Some y \<Rightarrow> Some (f y)) = map_option f x"
  by (cases x) simp_all

lemma find_assets_stages:
  assumes d: "distinct (map fst (games sctx))"
    and c: "collection_childs sctx (plat_name p) = Some childs"
    and s: "set childs \<subseteq> fst ` set (games sctx)"
  shows "build_escaped_title_map childs (games sctx)
           = Some (title_index escape_title childs (games sctx))
         \<and> find_assets w lb_dir p adm sctx =
           (let esc = title_index escape_title childs (games sctx);
                gs2 = map (\<lambda>(i, g). (i,
                        attach_files MUSIC (\<lambda>f. esc (completeBaseName f))
                          (dir_files w (lb_dir @ ''Music/'' @ plat_name p @ ''/'')) i
                          (fold (\<lambda>(dir, ty). attach_files ty
                                   (\<lambda>f. esc (chop3 (completeBaseName f)))
                                   (dir_files w (lb_dir @ ''Images/'' @ plat_name p @ ''/'' @ dir))
                                   i) adm g))) (games sctx)
            in map_option (\<lambda>gs3. sctx\<lparr>games := gs3\<rparr>)
                 (find_videos_in w (lb_dir @ ''Videos/'' @ plat_name p @ ''/'')
                    (title_index (\<lambda>t. t) childs gs2) gs2))"
proof -
  let ?gs = "games sctx"
  let ?esc = "title_index escape_title childs ?gs"
  let ?I = "\<lambda>i. fold (\<lambda>(dir, ty). attach_files ty (\<lambda>f. ?esc (chop3 (completeBaseName f)))
                (dir_files w (lb_dir @ ''Images/'' @ plat_name p @ ''/'' @ dir)) i) adm"
  let ?M = "\<lambda>i. attach_files MUSIC (\<lambda>f. ?esc (completeBaseName f))
                (dir_files w (lb_dir @ ''Music/'' @ plat_name p @ ''/'')) i"
  let ?gs1 = "map (\<lambda>(i, g). (i, ?I i g)) ?gs"
  let ?gs2 = "map (\<lambda>(i, g). (i, ?M i (?I i g))) ?gs"
  have e: "build_escaped_title_map childs ?gs = Some ?esc"
    unfolding build_escaped_title_map_def by (rule build_title_map_empty[OF s])
  have r: "ran ?esc \<subseteq> fst ` set ?gs"
    using ran_title_index[of escape_title childs ?gs] s by blast
  have i: "find_image_assets w (lb_dir @ ''Images/'' @ plat_name p @ ''/'') adm ?esc ?gs
           = Some ?gs1"
    using find_image_assets_map[OF d r, of w "lb_dir @ ''Images/'' @ plat_name p @ ''/''" adm]
    by (simp add: asset_game_title_chop3)
  have k1: "map fst ?gs1 = map fst ?gs" by (rule map_fst_attach)
  have d1: "distinct (map fst ?gs1)" "ran ?esc \<subseteq> fst ` set ?gs1"
    using d r k1 by (simp_all only: flip: set_map)
  have "find_assets_in w (lb_dir @ ''Music/'' @ plat_name p @ ''/'') MUSIC False ?esc ?gs1
           = Some (map (\<lambda>(i, g). (i, ?M i g)) ?gs1)"
    using find_assets_in_map[OF d1, of w "lb_dir @ ''Music/'' @ plat_name p @ ''/''" MUSIC False]
    by simp
  also have "map (\<lambda>(i, g). (i, ?M i g)) ?gs1 = ?gs2"
    by (simp add: case_prod_beta comp_def)
  finally have m: "find_assets_in w (lb_dir @ ''Music/'' @ plat_name p @ ''/'') MUSIC False
                     ?esc ?gs1 = Some ?gs2" .
  have k2: "map fst ?gs2 = map fst ?gs" by (rule map_fst_attach)
  have s2: "set childs \<subseteq> fst ` set ?gs2"
    using s k2 by (simp only: flip: set_map)
  have t: "build_title_map (\<lambda>t. t) childs ?gs2 Map.empty = Some (title_index (\<lambda>t. t) childs ?gs2)"
    by (rule build_title_map_empty[OF s2])
  have fa: "find_assets w lb_dir p adm sctx =
          map_option (\<lambda>gs3. sctx\<lparr>games := gs3\<rparr>)
            (find_videos_in w (lb_dir @ ''Videos/'' @ plat_name p @ ''/'')
               (title_index (\<lambda>t. t) childs ?gs2) ?gs2)"
    by (simp only: find_assets_def c e i m t option.case case_map_option)
  show ?thesis unfolding Let_def by (rule conjI[OF e fa])
qed

lemma find_videos_in_map:
  assumes "distinct (map fst gs)" and "ran m \<subseteq> fst ` set gs"
  shows "find_videos_in w dir m gs =
           Some (map (\<lambda>(i, g). (i, attach_files VIDEOS (video_match m) (dir_files w dir) i g)) gs)"
  unfolding find_videos_in_def by (rule find_videos_loop_map[OF assms])

text \<open>
  Claim C4, as amended. With the suffix flag set the name looked up for a file is its
  complete base name without its last three characters, whatever they are (the whole base
  name when it is shorter than three characters); without the flag it is the complete base
  name itself. \<open>find_assets_in\<close> looks up every file the directory iterator yields
  under that name and hands it to \<^verbatim>\<open>addFileMaybe\<close> of the game found; a file whose
  name is not in the map is skipped. \<open>find_assets\<close> builds the escaped-title index of
  the collection (a name is mapped to the first child with that escaped title), runs
  every image category of its table with the flag set and the music directory with the
  flag cleared, both on that index, and then the video matcher.
\<close>

theorem asset_lookup_name:
  "asset_game_title True b = chop3 b
   \<and> asset_game_title False b = b
   \<and> chop3 (t @ [x, y, z]) = t
   \<and> (length b < 3 \<longrightarrow> chop3 b = b)
   \<and> (distinct (map fst gs) \<and> ran m \<subseteq> fst ` set gs \<longrightarrow>
        find_assets_in w dir ty h m gs =
          Some (map (\<lambda>(i, g). (i, attach_files ty
                  (\<lambda>f. m (if h then chop3 (completeBaseName f) else completeBaseName f))
                  (dir_files w dir) i g)) gs))
   \<and> (distinct (map fst (games sctx)) \<and> collection_childs sctx (plat_name p) = Some childs
        \<and> set childs \<subseteq> fst ` set (games sctx) \<longrightarrow>
        build_escaped_title_map childs (games sctx)
          = Some (title_index escape_title childs (games sctx))
        \<and> find_assets w lb_dir p adm sctx =
           (let esc = title_index escape_title childs (games sctx);
                gs2 = map (\<lambda>(i, g). (i,
                        attach_files MUSIC (\<lambda>f. esc (completeBaseName f))
                          (dir_files w (lb_dir @ ''Music/'' @ plat_name p @ ''/'')) i
                          (fold (\<lambda>(dir, ty). attach_files ty
                                   (\<lambda>f. esc (chop3 (completeBaseName f)))
                                   (dir_files w (lb_dir @ ''Images/'' @ plat_name p @ ''/'' @ dir))
                                   i) adm g))) (games sctx)
            in map_option (\<lambda>gs3. sctx\<lparr>games := gs3\<rparr>)
                 (find_videos_in w (lb_dir @ ''Videos/'' @ plat_name p @ ''/'')
                    (title_index (\<lambda>t. t) childs gs2) gs2)))"
proof (intro conjI impI)
  show "asset_game_title True b = chop3 b" by (rule asset_game_title_chop3)
  show "asset_game_title False b = b" by (rule asset_game_title_whole)
  show "chop3 (t @ [x, y, z]) = t" by (simp add: chop3_def)
  show "chop3 b = b" if "length b < 3" using that by (simp add: chop3_def)
next
  assume "distinct (map fst gs) \<and> ran m \<subseteq> fst ` set gs"
  then show "find_assets_in w dir ty h m gs =
          Some (map (\<lambda>(i, g). (i, attach_files ty
                  (\<lambda>f. m (if h then chop3 (completeBaseName f) else completeBaseName f))
                  (dir_files w dir) i g)) gs)"
    using find_assets_in_map by blast
next
  assume a: "distinct (map fst (games sctx)) \<and> collection_childs sctx (plat_name p) = Some childs
        \<and> set childs \<subseteq> fst ` set (games sctx)"
  note st = find_assets_stages[where w = w and lb_dir = lb_dir and adm = adm,
      OF a[THEN conjunct1] a[THEN conjunct2, THEN conjunct1] a[THEN conjunct2, THEN conjunct2]]
  show "build_escaped_title_map childs (games sctx)
          = Some (title_index escape_title childs (games sctx))"
    by (rule st[THEN conjunct1])
  show "find_assets w lb_dir p adm sctx =
           (let esc = title_index escape_title childs (games sctx);
                gs2 = map (\<lambda>(i, g). (i,
                        attach_files MUSIC (\<lambda>f. esc (completeBaseName f))
                          (dir_files w (lb_dir @ ''Music/'' @ plat_name p @ ''/'')) i
                          (fold (\<lambda>(dir, ty). attach_files ty
                                   (\<lambda>f. esc (chop3 (completeBaseName f)))
                                   (dir_files w (lb_dir @ ''Images/'' @ plat_name p @ ''/'' @ dir))
                                   i) adm g))) (games sctx)
            in map_option (\<lambda>gs3. sctx\<lparr>games := gs3\<rparr>)
                 (find_videos_in w (lb_dir @ ''Videos/'' @ plat_name p @ ''/'')
                    (title_index (\<lambda>t. t) childs gs2) gs2))"
    by (rule st[THEN conjunct2])
qed

theorem asset_lookup_name_witness:
  "chop3 ''ab'' = ''ab''
   \<and> find_assets_in (demo_world\<lparr>dir_files := demo_images_music\<rparr>) ''/lb/Music/SNES/'' MUSIC
        False (map_of [(''Mario_ Kart'', 0)]) (games demo_library)
      = Some [(0, addFileMaybe MUSIC ''/lb/Music/SNES/Mario_ Kart.mp3''
                    (demo_titled ''roms/a.rom'' ''Mario: Kart'')),
              (1, demo_titled ''roms/b.rom'' ''The Metroid Prime'')]
   \<and> map_option (\<lambda>m. (m ''Mario_ Kart'', m ''Mario: Kart''))
        (build_escaped_title_map [0, 1] (games demo_library)) = Some (Some 0, None)
   \<and> find_assets (demo_world\<lparr>dir_files := demo_images_music\<rparr>) ''/lb/'' demo_platform
        assetdir_map demo_library
      = Some (demo_library\<lparr>games :=
          [(0, addFileMaybe MUSIC ''/lb/Music/SNES/Mario_ Kart.mp3''
                 (addFileMaybe BOX_FRONT ''/lb/Images/SNES/Box - Front/Mario_ Kart-01.png''
                    (demo_titled ''roms/a.rom'' ''Mario: Kart''))),
           (1, demo_titled ''roms/b.rom'' ''The Metroid Prime'')]\<rparr>)"
proof -
  let ?W = "demo_world\<lparr>dir_files := demo_images_music\<rparr>"
  have c1: "chop3 ''ab'' = ''ab''"
    by (rule asset_lookup_name[where b = "''ab''", THEN conjunct2, THEN conjunct2,
          THEN conjunct2, THEN conjunct1, rule_format]) simp
  have h2: "distinct (map fst (games demo_library))
            \<and> ran (map_of [(''Mario_ Kart'', 0::nat)]) \<subseteq> fst ` set (games demo_library)"
    by (simp add: demo_library_def ran_def)
  have c2: "find_assets_in ?W ''/lb/Music/SNES/'' MUSIC False (map_of [(''Mario_ Kart'', 0)])
              (games demo_library)
            = Some [(0, addFileMaybe MUSIC ''/lb/Music/SNES/Mario_ Kart.mp3''
                          (demo_titled ''roms/a.rom'' ''Mario: Kart'')),
                    (1, demo_titled ''roms/b.rom'' ''The Metroid Prime'')]"
    unfolding asset_lookup_name[where gs = "games demo_library"
        and m = "map_of [(''Mario_ Kart'', 0)]"
        and w = ?W and dir = "''/lb/Music/SNES/''" and ty = MUSIC and h = False,
        THEN conjunct2, THEN conjunct2, THEN conjunct2, THEN conjunct2,
        THEN conjunct1, rule_format, OF h2]
    by (simp add: demo_library_def demo_images_music_def attach_files_def completeBaseName_def
        fileName_def)
  have h3: "distinct (map fst (games demo_library))
            \<and> collection_childs demo_library (plat_name demo_platform) = Some [0, 1]
            \<and> set [0, 1] \<subseteq> fst ` set (games demo_library)"
    by (simp add: demo_library_def demo_platform_def)
  note t = asset_lookup_name[where sctx = demo_library and p = demo_platform
      and childs = "[0, 1]" and w = ?W and lb_dir = "''/lb/''" and adm = assetdir_map,
      THEN conjunct2, THEN conjunct2, THEN conjunct2, THEN conjunct2, THEN conjunct2,
      rule_format, OF h3]
  have c3: "map_option (\<lambda>m. (m ''Mario_ Kart'', m ''Mario: Kart''))
              (build_escaped_title_map [0, 1] (games demo_library)) = Some (Some 0, None)"
    unfolding t[THEN conjunct1]
    by (simp add: title_index_def demo_library_def demo_titled_def new_Game_def
        escape_title_def rx_invalid_def)
  have c4: "find_assets ?W ''/lb/'' demo_platform assetdir_map demo_library
      = Some (demo_library\<lparr>games :=
          [(0, addFileMaybe MUSIC ''/lb/Music/SNES/Mario_ Kart.mp3''
                 (addFileMaybe BOX_FRONT ''/lb/Images/SNES/Box - Front/Mario_ Kart-01.png''
                    (demo_titled ''roms/a.rom'' ''Mario: Kart''))),
           (1, demo_titled ''roms/b.rom'' ''The Metroid Prime'')]\<rparr>)"
    unfolding t[THEN conjunct2]
    by (simp add: Let_def find_videos_in_def title_index_def demo_library_def demo_titled_def
        new_Game_def escape_title_def rx_invalid_def demo_images_music_def attach_files_def
        completeBaseName_def fileName_def chop3_def assetdir_map_def demo_platform_def
        addFileMaybe_def)
  show ?thesis using c1 c2 c3 c4 by (intro conjI)
qed

text \<open>The claim as stated fails for an image file whose name carries no \<open>-NN\<close> tag: the
  last three characters are dropped all the same, and the file of the game titled
  \<open>Zelda\<close> is looked up as \<open>Ze\<close> and not attached.\<close>

theorem asset_lookup_name_counterexample:
  "asset_game_title True (completeBaseName ''/lb/Images/SNES/Box - Front/Zelda.png'') = ''Ze''
   \<and> find_assets_loop BOX_FRONT True (map_of [(''Zelda'', 0)])
        [''/lb/Images/SNES/Box - Front/Zelda.png'']
        [(0, new_Game (demo_finfo ''/lb/'' ''roms/a.rom''))]
      = Some [(0, new_Game (demo_finfo ''/lb/'' ''roms/a.rom''))]"
  by (simp add: completeBaseName_def fileName_def asset_game_title_def left_def Let_def)

subsection \<open>Video matching\<close>

lemma lastIndexOf_from_last:
  "c \<notin> set tag \<Longrightarrow> k \<le> length tag \<Longrightarrow>
   lastIndexOf_from (pre @ c # tag) c (length pre + k) = int (length pre)"
proof (induction k)
  case 0
  show ?case by (cases "length pre") (simp_all add: nth_append)
next
  case (Suc k)
  then have "tag ! k \<in> set tag" by simp
  with Suc.prems have "tag ! k \<noteq> c" by metis
  then have "(pre @ c # tag) ! Suc (length pre + k) \<noteq> c"
    by (simp add: nth_append)
  then show ?case using Suc by simp
qed

lemma video_game_title_strip:
  assumes "pre \<noteq> []" and "CHR ''('' \<notin> set tag"
  shows "video_game_title (pre @ ''('' @ tag @ '')'') = trimmed pre"
proof -
  let ?b = "pre @ ''('' @ tag @ '')''"
  have e: "endsWith ?b '')''" by (simp add: endsWith_def)
  have "lastIndexOf_from (pre @ CHR ''('' # (tag @ '')'')) CHR ''('' (length pre + length tag)
        = int (length pre)"
    using assms(2) by (intro lastIndexOf_from_last) auto
  then have "lastIndexOf ?b CHR ''('' (- 2) = int (length pre)"
    by (simp add: lastIndexOf_def Let_def nat_add_distrib)
  then have "video_title_range_end ?b = int (length pre)"
    using e assms(1) by (simp add: video_title_range_end_def Let_def)
  then show ?thesis
    by (simp add: video_game_title_def left_def)
qed

lemma left_minus:
  "0 < k \<Longrightarrow> k \<le> length s \<Longrightarrow> left s (int (length s) - int k) = take (length s - k) s"
  by (auto simp: left_def nat_diff_distrib')

lemma video_game_title_plain:
  "\<not> endsWith basename '')'' \<Longrightarrow> video_game_title basename = trimmed basename"
  by (simp add: video_game_title_def video_title_range_end_def left_def)

lemma replace_dash_first:
  "CHR ''-'' \<notin> set x \<Longrightarrow>
   replace '' - '' '': '' (x @ '' - '' @ y) = x @ '': '' @ replace '' - '' '': '' y"
proof (induction x)
  case Nil
  show ?case by simp
next
  case (Cons c x)
  have "replace '' - '' '': '' (c # x @ '' - '' @ y) = c # replace '' - '' '': '' (x @ '' - '' @ y)"
    using Cons.prems by (cases x) auto
  then show ?case using Cons by simp
qed

lemma replace_no_dash: "CHR ''-'' \<notin> set x \<Longrightarrow> replace '' - '' '': '' x = x"
proof (induction x)
  case Nil
  show ?case by simp
next
  case (Cons c x)
  have "replace '' - '' '': '' (c # x) = c # replace '' - '' '': '' x"
    using Cons.prems by (cases x) auto
  then show ?case using Cons by simp
qed

lemma find_videos_loop_direct:
  "title_to_gameid_map (video_game_title (completeBaseName f)) = Some gameid \<Longrightarrow>
   map_of gs gameid = Some game \<Longrightarrow>
   find_videos_loop title_to_gameid_map [f] gs =
     Some (games_set gs gameid (addFileMaybe VIDEOS f game))"
  by (simp add: Let_def)

lemma find_videos_loop_retry:
  "title_to_gameid_map (video_game_title (completeBaseName f)) = None \<Longrightarrow>
   title_to_gameid_map (video_retry_title (video_game_title (completeBaseName f))) = Some gameid \<Longrightarrow>
   map_of gs gameid = Some game \<Longrightarrow>
   find_videos_loop title_to_gameid_map [f] gs =
     Some (games_set gs gameid (addFileMaybe VIDEOS f game))"
  by (simp add: Let_def)

lemma find_videos_loop_skip:
  "title_to_gameid_map (video_game_title (completeBaseName f)) = None \<Longrightarrow>
   title_to_gameid_map (video_retry_title (video_game_title (completeBaseName f))) = None \<Longrightarrow>
   find_videos_loop title_to_gameid_map [f] gs = Some gs"
  by (simp add: Let_def)

lemma metroid_titles:
  "completeBaseName ''/lb/Videos/GC/Metroid Prime, The (USA).mp4'' = ''Metroid Prime, The (USA)''"
  "video_game_title ''Metroid Prime, The (USA)'' = ''Metroid Prime, The''"
  "video_retry_title ''Metroid Prime, The'' = ''The Metroid Prime''"
proof -
  show "completeBaseName ''/lb/Videos/GC/Metroid Prime, The (USA).mp4'' = ''Metroid Prime, The (USA)''"
    by (simp add: completeBaseName_def fileName_def)
  have "video_game_title (''Metroid Prime, The '' @ ''('' @ ''USA'' @ '')'') = trimmed ''Metroid Prime, The ''"
    by (rule video_game_title_strip) simp_all
  then show "video_game_title ''Metroid Prime, The (USA)'' = ''Metroid Prime, The''"
    by (simp add: trimmed_def isSpace_def)
  have "replace '' - '' '': '' ''Metroid Prime, The'' = ''Metroid Prime, The''"
    by (rule replace_no_dash) simp
  then show "video_retry_title ''Metroid Prime, The'' = ''The Metroid Prime''"
    by (simp add: video_retry_title_def endsWith_def left_def)
qed

lemma metroid_video:
  "find_videos_loop (map_of [(''The Metroid Prime'', 0)])
     [''/lb/Videos/GC/Metroid Prime, The (USA).mp4''] [(0, g)]
   = Some [(0, addFileMaybe VIDEOS ''/lb/Videos/GC/Metroid Prime, The (USA).mp4'' g)]"
proof -
  let ?f = "''/lb/Videos/GC/Metroid Prime, The (USA).mp4''"
  have 1: "map_of [(''The Metroid Prime'', 0::nat)] (video_game_title (completeBaseName ?f)) = None"
    by (simp only: metroid_titles) simp
  have 2: "map_of [(''The Metroid Prime'', 0::nat)]
             (video_retry_title (video_game_title (completeBaseName ?f))) = Some 0"
    by (simp only: metroid_titles) simp
  have 3: "map_of [(0::nat, g)] 0 = Some g" by simp
  have 4: "games_set [(0, g)] 0 (addFileMaybe VIDEOS ?f g) = [(0, addFileMaybe VIDEOS ?f g)]"
    by (simp add: games_set_def)
  show ?thesis
    using find_videos_loop_retry[OF 1 2 3] by (simp only: 4)
qed


lemma lastIndexOf_from_absent:
  "c \<notin> set s \<Longrightarrow> i < length s \<Longrightarrow> lastIndexOf_from s c i = - 1"
proof (induction i)
  case 0
  then have "s ! 0 \<in> set s" by simp
  with 0 show ?case by auto
next
  case (Suc i)
  then have "s ! Suc i \<in> set s" by simp
  with Suc show ?case by auto
qed

lemma video_game_title_no_paren:
  assumes "CHR ''('' \<notin> set b"
  shows "video_game_title b = trimmed b"
proof -
  have "lastIndexOf b CHR ''('' (- 2) = - 1"
    using assms lastIndexOf_from_absent[of "CHR ''(''" b "nat (int (length b) - 2)"]
    by (auto simp: lastIndexOf_def Let_def)
  then show ?thesis
    by (simp add: video_game_title_def video_title_range_end_def left_def)
qed

lemma video_game_title_paren_only:
  assumes "CHR ''('' \<notin> set tag"
  shows "video_game_title (''('' @ tag @ '')'') = trimmed (''('' @ tag @ '')'')"
proof -
  let ?b = "''('' @ tag @ '')''"
  have "lastIndexOf_from ([] @ CHR ''('' # (tag @ '')'')) CHR ''('' (length ([]::string) + length tag)
        = int (length ([]::string))"
    using assms by (intro lastIndexOf_from_last) auto
  then have "lastIndexOf ?b CHR ''('' (- 2) = 0"
    by (simp add: lastIndexOf_def Let_def)
  then show ?thesis
    by (simp add: video_game_title_def video_title_range_end_def left_def)
qed

lemma video_retry_title_The:
  assumes e: "endsWith (replace '' - '' '': '' t) '', The''"
  shows "video_retry_title t =
          ''The '' @ take (length (replace '' - '' '': '' t) - 5) (replace '' - '' '': '' t)"
proof -
  have "5 \<le> length (replace '' - '' '': '' t)"
    using e by (simp add: endsWith_def)
  then have "left (replace '' - '' '': '' t) (int (length (replace '' - '' '': '' t)) - 5) =
             take (length (replace '' - '' '': '' t) - 5) (replace '' - '' '': '' t)"
    using left_minus[of 5 "replace '' - '' '': '' t"] by simp
  then show ?thesis
    using e by (simp add: video_retry_title_def Let_def)
qed

lemma video_match_fun:
  "(\<lambda>f. case m (video_game_title (completeBaseName f)) of
           Some j \<Rightarrow> Some j
         | None \<Rightarrow> m (video_retry_title (video_game_title (completeBaseName f))))
   = video_match m"
  by (rule ext) (simp add: video_match_def)

lemma find_assets_closed:
  assumes d: "distinct (map fst (games sctx))"
    and c: "collection_childs sctx (plat_name p) = Some childs"
    and s: "set childs \<subseteq> fst ` set (games sctx)"
  shows "find_assets w lb_dir p adm sctx =
           Some (sctx\<lparr>games := map (\<lambda>(i, g). (i,
              attach_files VIDEOS (video_match (title_index (\<lambda>t. t) childs (games sctx)))
                (dir_files w (lb_dir @ ''Videos/'' @ plat_name p @ ''/'')) i
                (attach_files MUSIC
                   (\<lambda>f. title_index escape_title childs (games sctx) (completeBaseName f))
                   (dir_files w (lb_dir @ ''Music/'' @ plat_name p @ ''/'')) i
                   (fold (\<lambda>(dir, ty). attach_files ty
                            (\<lambda>f. title_index escape_title childs (games sctx)
                                    (chop3 (completeBaseName f)))
                            (dir_files w (lb_dir @ ''Images/'' @ plat_name p @ ''/'' @ dir)) i)
                      adm g)))) (games sctx)\<rparr>)"
proof -
  let ?gs = "games sctx"
  let ?esc = "title_index escape_title childs ?gs"
  let ?F = "\<lambda>i g. attach_files MUSIC (\<lambda>f. ?esc (completeBaseName f))
                (dir_files w (lb_dir @ ''Music/'' @ plat_name p @ ''/'')) i
              (fold (\<lambda>(dir, ty). attach_files ty (\<lambda>f. ?esc (chop3 (completeBaseName f)))
                (dir_files w (lb_dir @ ''Images/'' @ plat_name p @ ''/'' @ dir)) i) adm g)"
  let ?V = "\<lambda>i g. attach_files VIDEOS (video_match (title_index (\<lambda>t. t) childs ?gs))
                (dir_files w (lb_dir @ ''Videos/'' @ plat_name p @ ''/'')) i g"
  let ?gs2 = "map (\<lambda>(i, g). (i, ?F i g)) ?gs"
  have tf: "title (fold (\<lambda>(dir, ty). attach_files ty (L dir) (D dir) i) xs g) = title g"
    for L D i xs g
    by (induction xs arbitrary: g) (simp_all add: case_prod_beta)
  have tF: "\<And>i g. title (?F i g) = title g" by (simp add: tf)
  have k2: "map fst ?gs2 = map fst ?gs" by (rule map_fst_attach)
  have ti: "title_index (\<lambda>t. t) childs ?gs2 = title_index (\<lambda>t. t) childs ?gs"
    by (rule title_index_attach[where F = ?F, OF tF])
  have "ran (title_index (\<lambda>t. t) childs ?gs) \<subseteq> fst ` set ?gs"
    using ran_title_index[of "\<lambda>t. t" childs ?gs] s by blast
  then have r: "ran (title_index (\<lambda>t. t) childs ?gs) \<subseteq> fst ` set ?gs2"
    using k2 by (simp only: flip: set_map)
  have d2: "distinct (map fst ?gs2)" unfolding k2 by (rule d)
  have "find_assets w lb_dir p adm sctx =
          map_option (\<lambda>gs3. sctx\<lparr>games := gs3\<rparr>)
            (find_videos_in w (lb_dir @ ''Videos/'' @ plat_name p @ ''/'')
               (title_index (\<lambda>t. t) childs ?gs) ?gs2)"
    by (rule find_assets_stages[OF d c s, of w lb_dir adm, THEN conjunct2, unfolded Let_def ti])
  also have "\<dots> = Some (sctx\<lparr>games := map (\<lambda>(i, g). (i, ?V i g)) ?gs2\<rparr>)"
    unfolding find_videos_in_map[OF d2 r] by simp
  also have "map (\<lambda>(i, g). (i, ?V i g)) ?gs2 = map (\<lambda>(i, g). (i, ?V i (?F i g))) ?gs"
    by (simp add: case_prod_beta comp_def)
  finally show ?thesis .
qed

lemma metroid_video_in:
  "find_videos_in (w\<lparr>dir_files := (\<lambda>d. [''/lb/Videos/GC/Metroid Prime, The (USA).mp4''])\<rparr>)
     ''/lb/Videos/GC/'' (map_of [(''The Metroid Prime'', 0)]) [(0, g)]
   = Some [(0, addFileMaybe VIDEOS ''/lb/Videos/GC/Metroid Prime, The (USA).mp4'' g)]"
  unfolding find_videos_in_def using metroid_video[of g] by simp

text \<open>
  Claim C5, as amended. The title looked up for a video file is its complete base name,
  trimmed; when the name ends with a closing parenthesis and its last opening
  parenthesis is not its first character, the name is cut before that parenthesis first.
  A name that is one parenthesis group only is not cut. \<open>find_videos_in\<close> looks up every
  file the directory iterator yields under that title; on a miss it replaces every
  \<open>" - "\<close> by \<open>": "\<close>, moves a trailing \<open>", The"\<close> to the front as \<open>"The "\<close> and looks
  the result up once more; a file that misses twice is skipped, any other is handed to
  \<^verbatim>\<open>addFileMaybe\<close> of the game found. \<open>find_assets\<close> runs it on the directory
  \<open>Videos/<platform>/\<close> with the index of the raw titles of the collection, after the
  images and the music. The file \<open>Metroid Prime, The (USA).mp4\<close> is attached to the game
  titled \<open>The Metroid Prime\<close>.
\<close>

theorem video_matching:
  "(\<not> endsWith b '')'' \<longrightarrow> video_game_title b = trimmed b)
   \<and> (CHR ''('' \<notin> set b \<longrightarrow> video_game_title b = trimmed b)
   \<and> (CHR ''('' \<notin> set tag \<longrightarrow>
        video_game_title (''('' @ tag @ '')'') = trimmed (''('' @ tag @ '')''))
   \<and> (pre \<noteq> [] \<and> CHR ''('' \<notin> set tag \<longrightarrow>
        video_game_title (pre @ ''('' @ tag @ '')'') = trimmed pre)
   \<and> (CHR ''-'' \<notin> set x \<longrightarrow>
        replace '' - '' '': '' (x @ '' - '' @ y) = x @ '': '' @ replace '' - '' '': '' y)
   \<and> (CHR ''-'' \<notin> set x \<longrightarrow> replace '' - '' '': '' x = x)
   \<and> (endsWith (replace '' - '' '': '' t) '', The'' \<longrightarrow>
        video_retry_title t =
          ''The '' @ take (length (replace '' - '' '': '' t) - 5) (replace '' - '' '': '' t))
   \<and> (\<not> endsWith (replace '' - '' '': '' t) '', The'' \<longrightarrow>
        video_retry_title t = replace '' - '' '': '' t)
   \<and> (distinct (map fst gs) \<and> ran m \<subseteq> fst ` set gs \<longrightarrow>
        find_videos_in w dir m gs =
          Some (map (\<lambda>(i, g). (i, attach_files VIDEOS
                  (\<lambda>f. case m (video_game_title (completeBaseName f)) of
                          Some j \<Rightarrow> Some j
                        | None \<Rightarrow> m (video_retry_title (video_game_title (completeBaseName f))))
                  (dir_files w dir) i g)) gs))
   \<and> (distinct (map fst (games sctx)) \<and> collection_childs sctx (plat_name p) = Some childs
        \<and> set childs \<subseteq> fst ` set (games sctx) \<longrightarrow>
        find_assets w lb_dir p adm sctx =
          Some (sctx\<lparr>games := map (\<lambda>(i, g). (i,
              attach_files VIDEOS
                (\<lambda>f. case title_index (\<lambda>t. t) childs (games sctx)
                              (video_game_title (completeBaseName f)) of
                        Some j \<Rightarrow> Some j
                      | None \<Rightarrow> title_index (\<lambda>t. t) childs (games sctx)
                                 (video_retry_title (video_game_title (completeBaseName f))))
                (dir_files w (lb_dir @ ''Videos/'' @ plat_name p @ ''/'')) i
                (attach_files MUSIC
                   (\<lambda>f. title_index escape_title childs (games sctx) (completeBaseName f))
                   (dir_files w (lb_dir @ ''Music/'' @ plat_name p @ ''/'')) i
                   (fold (\<lambda>(dir, ty). attach_files ty
                            (\<lambda>f. title_index escape_title childs (games sctx)
                                    (chop3 (completeBaseName f)))
                            (dir_files w (lb_dir @ ''Images/'' @ plat_name p @ ''/'' @ dir)) i)
                      adm g)))) (games sctx)\<rparr>))
   \<and> find_videos_in (w\<lparr>dir_files := (\<lambda>d. [''/lb/Videos/GC/Metroid Prime, The (USA).mp4''])\<rparr>)
        ''/lb/Videos/GC/'' (map_of [(''The Metroid Prime'', 0)]) [(0, g)]
      = Some [(0, addFileMaybe VIDEOS ''/lb/Videos/GC/Metroid Prime, The (USA).mp4'' g)]"
proof (intro conjI impI)
  show "find_videos_in (w\<lparr>dir_files := (\<lambda>d. [''/lb/Videos/GC/Metroid Prime, The (USA).mp4''])\<rparr>)
        ''/lb/Videos/GC/'' (map_of [(''The Metroid Prime'', 0)]) [(0, g)]
      = Some [(0, addFileMaybe VIDEOS ''/lb/Videos/GC/Metroid Prime, The (USA).mp4'' g)]"
    by (rule metroid_video_in)
next
  assume "\<not> endsWith b '')''"
  then show "video_game_title b = trimmed b" by (rule video_game_title_plain)
next
  assume "CHR ''('' \<notin> set b"
  then show "video_game_title b = trimmed b" by (rule video_game_title_no_paren)
next
  assume "CHR ''('' \<notin> set tag"
  then show "video_game_title (''('' @ tag @ '')'') = trimmed (''('' @ tag @ '')'')"
    by (rule video_game_title_paren_only)
next
  assume "pre \<noteq> [] \<and> CHR ''('' \<notin> set tag"
  then show "video_game_title (pre @ ''('' @ tag @ '')'') = trimmed pre"
    using video_game_title_strip by blast
next
  assume "CHR ''-'' \<notin> set x"
  then show "replace '' - '' '': '' (x @ '' - '' @ y) = x @ '': '' @ replace '' - '' '': '' y"
    by (rule replace_dash_first)
next
  assume "CHR ''-'' \<notin> set x"
  then show "replace '' - '' '': '' x = x" by (rule replace_no_dash)
next
  assume "endsWith (replace '' - '' '': '' t) '', The''"
  then show "video_retry_title t =
          ''The '' @ take (length (replace '' - '' '': '' t) - 5) (replace '' - '' '': '' t)"
    by (rule video_retry_title_The)
next
  assume "\<not> endsWith (replace '' - '' '': '' t) '', The''"
  then show "video_retry_title t = replace '' - '' '': '' t"
    by (simp add: video_retry_title_def Let_def del: replace.simps)
next
  assume a: "distinct (map fst gs) \<and> ran m \<subseteq> fst ` set gs"
  show "find_videos_in w dir m gs =
          Some (map (\<lambda>(i, g). (i, attach_files VIDEOS
                  (\<lambda>f. case m (video_game_title (completeBaseName f)) of
                          Some j \<Rightarrow> Some j
                        | None \<Rightarrow> m (video_retry_title (video_game_title (completeBaseName f))))
                  (dir_files w dir) i g)) gs)"
    unfolding video_match_fun
    by (rule find_videos_in_map[OF a[THEN conjunct1] a[THEN conjunct2]])
next
  assume a: "distinct (map fst (games sctx)) \<and> collection_childs sctx (plat_name p) = Some childs
        \<and> set childs \<subseteq> fst ` set (games sctx)"
  show "find_assets w lb_dir p adm sctx =
          Some (sctx\<lparr>games := map (\<lambda>(i, g). (i,
              attach_files VIDEOS
                (\<lambda>f. case title_index (\<lambda>t. t) childs (games sctx)
                              (video_game_title (completeBaseName f)) of
                        Some j \<Rightarrow> Some j
                      | None \<Rightarrow> title_index (\<lambda>t. t) childs (games sctx)
                                 (video_retry_title (video_game_title (completeBaseName f))))
                (dir_files w (lb_dir @ ''Videos/'' @ plat_name p @ ''/'')) i
                (attach_files MUSIC
                   (\<lambda>f. title_index escape_title childs (games sctx) (completeBaseName f))
                   (dir_files w (lb_dir @ ''Music/'' @ plat_name p @ ''/'')) i
                   (fold (\<lambda>(dir, ty). attach_files ty
                            (\<lambda>f. title_index escape_title childs (games sctx)
                                    (chop3 (completeBaseName f)))
                            (dir_files w (lb_dir @ ''Images/'' @ plat_name p @ ''/'' @ dir)) i)
                      adm g)))) (games sctx)\<rparr>)"
    unfolding video_match_fun
    by (rule find_assets_closed[OF a[THEN conjunct1] a[THEN conjunct2, THEN conjunct1]
          a[THEN conjunct2, THEN conjunct2]])
qed

theorem video_matching_witness:
  "video_game_title ''Zelda'' = ''Zelda''
   \<and> video_game_title ''Zelda)'' = ''Zelda)''
   \<and> video_game_title ''(USA)'' = ''(USA)''
   \<and> video_game_title ''Mario - Kart (EU)'' = ''Mario - Kart''
   \<and> replace '' - '' '': '' ''Mario - Kart'' = ''Mario: Kart''
   \<and> replace '' - '' '': '' ''Kart'' = ''Kart''
   \<and> video_retry_title ''Metroid Prime, The'' = ''The Metroid Prime''
   \<and> video_retry_title ''Mario - Kart'' = ''Mario: Kart''
   \<and> find_videos_in (demo_world\<lparr>dir_files := demo_videos\<rparr>) ''/lb/Videos/SNES/''
        (map_of [(''Mario: Kart'', 0), (''The Metroid Prime'', 1)]) (games demo_library)
      = Some [(0, addFileMaybe VIDEOS ''/lb/Videos/SNES/Mario - Kart (EU).mp4''
                    (demo_titled ''roms/a.rom'' ''Mario: Kart'')),
              (1, addFileMaybe VIDEOS ''/lb/Videos/SNES/Metroid Prime, The (USA).mp4''
                    (demo_titled ''roms/b.rom'' ''The Metroid Prime''))]
   \<and> find_assets (demo_world\<lparr>dir_files := demo_videos\<rparr>) ''/lb/'' demo_platform
        assetdir_map demo_library
      = Some (demo_library\<lparr>games :=
          [(0, addFileMaybe VIDEOS ''/lb/Videos/SNES/Mario - Kart (EU).mp4''
                 (demo_titled ''roms/a.rom'' ''Mario: Kart'')),
           (1, addFileMaybe VIDEOS ''/lb/Videos/SNES/Metroid Prime, The (USA).mp4''
                 (demo_titled ''roms/b.rom'' ''The Metroid Prime''))]\<rparr>)"
proof -
  let ?W = "demo_world\<lparr>dir_files := demo_videos\<rparr>"
  have c1: "video_game_title ''Zelda'' = ''Zelda''"
    using video_matching[where b = "''Zelda''", THEN conjunct1]
    by (simp add: endsWith_def trimmed_def isSpace_def)
  have c2: "video_game_title ''Zelda)'' = ''Zelda)''"
    using video_matching[where b = "''Zelda)''", THEN conjunct2, THEN conjunct1]
    by (simp add: trimmed_def isSpace_def)
  have c3: "video_game_title ''(USA)'' = ''(USA)''"
    using video_matching[where tag = "''USA''", THEN conjunct2, THEN conjunct2, THEN conjunct1]
    by (simp add: trimmed_def isSpace_def)
  have c4: "video_game_title ''Mario - Kart (EU)'' = ''Mario - Kart''"
    using video_matching[where pre = "''Mario - Kart ''" and tag = "''EU''",
        THEN conjunct2, THEN conjunct2, THEN conjunct2, THEN conjunct1]
    by (simp add: trimmed_def isSpace_def)
  have c4': "video_game_title ''Mario - Kart (JP)'' = ''Mario - Kart''"
    using video_matching[where pre = "''Mario - Kart ''" and tag = "''JP''",
        THEN conjunct2, THEN conjunct2, THEN conjunct2, THEN conjunct1]
    by (simp add: trimmed_def isSpace_def)
  have c4'': "video_game_title ''Metroid Prime, The (USA)'' = ''Metroid Prime, The''"
    using video_matching[where pre = "''Metroid Prime, The ''" and tag = "''USA''",
        THEN conjunct2, THEN conjunct2, THEN conjunct2, THEN conjunct1]
    by (simp add: trimmed_def isSpace_def)
  have c6: "replace '' - '' '': '' ''Kart'' = ''Kart''"
    by (rule video_matching[where x = "''Kart''", THEN conjunct2, THEN conjunct2,
          THEN conjunct2, THEN conjunct2, THEN conjunct2, THEN conjunct1, rule_format]) simp
  have c6': "replace '' - '' '': '' ''Metroid Prime, The'' = ''Metroid Prime, The''"
    by (rule video_matching[where x = "''Metroid Prime, The''", THEN conjunct2, THEN conjunct2,
          THEN conjunct2, THEN conjunct2, THEN conjunct2, THEN conjunct1, rule_format]) simp
  have c6'': "replace '' - '' '': '' ''(USA)'' = ''(USA)''"
    by (rule video_matching[where x = "''(USA)''", THEN conjunct2, THEN conjunct2,
          THEN conjunct2, THEN conjunct2, THEN conjunct2, THEN conjunct1, rule_format]) simp
  have "replace '' - '' '': '' (''Mario'' @ '' - '' @ ''Kart'')
        = ''Mario'' @ '': '' @ replace '' - '' '': '' ''Kart''"
    by (rule video_matching[where x = "''Mario''" and y = "''Kart''", THEN conjunct2,
          THEN conjunct2, THEN conjunct2, THEN conjunct2, THEN conjunct1, rule_format]) simp
  then have c5: "replace '' - '' '': '' ''Mario - Kart'' = ''Mario: Kart''"
    unfolding c6 by simp
  have "video_retry_title ''Metroid Prime, The'' =
          ''The '' @ take (length (replace '' - '' '': '' ''Metroid Prime, The'') - 5)
                       (replace '' - '' '': '' ''Metroid Prime, The'')"
    by (rule video_matching[where t = "''Metroid Prime, The''", THEN conjunct2,
          THEN conjunct2, THEN conjunct2, THEN conjunct2, THEN conjunct2, THEN conjunct2,
          THEN conjunct1, rule_format]) (simp add: c6' endsWith_def)
  then have c7: "video_retry_title ''Metroid Prime, The'' = ''The Metroid Prime''"
    unfolding c6' by simp
  have "video_retry_title ''Mario - Kart'' = replace '' - '' '': '' ''Mario - Kart''"
    by (rule video_matching[where t = "''Mario - Kart''", THEN conjunct2,
          THEN conjunct2, THEN conjunct2, THEN conjunct2, THEN conjunct2, THEN conjunct2,
          THEN conjunct2, THEN conjunct1, rule_format]) (simp add: c5 endsWith_def)
  then have c8: "video_retry_title ''Mario - Kart'' = ''Mario: Kart''"
    unfolding c5 .
  have "video_retry_title ''(USA)'' = replace '' - '' '': '' ''(USA)''"
    by (rule video_matching[where t = "''(USA)''", THEN conjunct2,
          THEN conjunct2, THEN conjunct2, THEN conjunct2, THEN conjunct2, THEN conjunct2,
          THEN conjunct2, THEN conjunct1, rule_format]) (simp add: c6'' endsWith_def)
  then have c8': "video_retry_title ''(USA)'' = ''(USA)''"
    unfolding c6'' .
  have b: "completeBaseName ''/lb/Videos/SNES/(USA).mp4'' = ''(USA)''"
    "completeBaseName ''/lb/Videos/SNES/Metroid Prime, The (USA).mp4''
       = ''Metroid Prime, The (USA)''"
    "completeBaseName ''/lb/Videos/SNES/Mario - Kart (EU).mp4'' = ''Mario - Kart (EU)''"
    "completeBaseName ''/lb/Videos/SNES/Mario - Kart (JP).mp4'' = ''Mario - Kart (JP)''"
    by (simp_all add: completeBaseName_def fileName_def)
  have h9: "distinct (map fst (games demo_library))
            \<and> ran (map_of [(''Mario: Kart'', 0::nat), (''The Metroid Prime'', 1)])
                \<subseteq> fst ` set (games demo_library)"
    by (auto simp: demo_library_def ran_def split: if_splits)
  have c9: "find_videos_in ?W ''/lb/Videos/SNES/''
        (map_of [(''Mario: Kart'', 0), (''The Metroid Prime'', 1)]) (games demo_library)
      = Some [(0, addFileMaybe VIDEOS ''/lb/Videos/SNES/Mario - Kart (EU).mp4''
                    (demo_titled ''roms/a.rom'' ''Mario: Kart'')),
              (1, addFileMaybe VIDEOS ''/lb/Videos/SNES/Metroid Prime, The (USA).mp4''
                    (demo_titled ''roms/b.rom'' ''The Metroid Prime''))]"
    unfolding video_matching[where gs = "games demo_library"
        and m = "map_of [(''Mario: Kart'', 0), (''The Metroid Prime'', 1)]"
        and w = ?W and dir = "''/lb/Videos/SNES/''",
        THEN conjunct2, THEN conjunct2, THEN conjunct2, THEN conjunct2, THEN conjunct2,
        THEN conjunct2, THEN conjunct2, THEN conjunct2, THEN conjunct1, rule_format, OF h9]
    by (simp add: demo_library_def demo_videos_def attach_files_def b c3 c4 c4' c4'' c7 c8 c8'
        addFileMaybe_def demo_titled_def new_Game_def)
  have h10: "distinct (map fst (games demo_library))
            \<and> collection_childs demo_library (plat_name demo_platform) = Some [0, 1]
            \<and> set [0, 1] \<subseteq> fst ` set (games demo_library)"
    by (simp add: demo_library_def demo_platform_def)
  have c10: "find_assets ?W ''/lb/'' demo_platform assetdir_map demo_library
      = Some (demo_library\<lparr>games :=
          [(0, addFileMaybe VIDEOS ''/lb/Videos/SNES/Mario - Kart (EU).mp4''
                 (demo_titled ''roms/a.rom'' ''Mario: Kart'')),
           (1, addFileMaybe VIDEOS ''/lb/Videos/SNES/Metroid Prime, The (USA).mp4''
                 (demo_titled ''roms/b.rom'' ''The Metroid Prime''))]\<rparr>)"
    unfolding video_matching[where sctx = demo_library and p = demo_platform
        and childs = "[0, 1]" and w = ?W and lb_dir = "''/lb/''" and adm = assetdir_map,
        THEN conjunct2, THEN conjunct2, THEN conjunct2, THEN conjunct2, THEN conjunct2,
        THEN conjunct2, THEN conjunct2, THEN conjunct2, THEN conjunct2, THEN conjunct1,
        rule_format, OF h10]
    by (simp add: title_index_def demo_library_def demo_videos_def attach_files_def
        b c3 c4 c4' c4'' c7 c8 c8' addFileMaybe_def demo_titled_def new_Game_def
        assetdir_map_def demo_platform_def)
  show ?thesis using c1 c2 c3 c4 c5 c6 c7 c8 c9 c10 by (intro conjI)
qed

text \<open>The claim as stated fails for a video file whose name is one parenthesis group
  only: \<open>(USA).mp4\<close> is looked up as \<open>(USA)\<close>, not as the empty title that is left
  when the trailing parenthetical is stripped, so it is attached to the game titled
  \<open>(USA)\<close> and not to the game without title.\<close>

theorem video_paren_only_counterexample:
  "video_game_title (completeBaseName ''/lb/Videos/SNES/(USA).mp4'') = ''(USA)''
   \<and> find_videos_in (demo_world\<lparr>dir_files := (\<lambda>d. [''/lb/Videos/SNES/(USA).mp4''])\<rparr>)
        ''/lb/Videos/SNES/'' (map_of [('''', 0), (''(USA)'', 1)])
        [(0, demo_titled ''roms/a.rom'' ''''), (1, demo_titled ''roms/b.rom'' ''(USA)'')]
      = Some [(0, demo_titled ''roms/a.rom'' ''''),
              (1, addFileMaybe VIDEOS ''/lb/Videos/SNES/(USA).mp4''
                    (demo_titled ''roms/b.rom'' ''(USA)''))]"
proof -
  have b: "completeBaseName ''/lb/Videos/SNES/(USA).mp4'' = ''(USA)''"
    by (simp add: completeBaseName_def fileName_def)
  have "video_game_title (''('' @ ''USA'' @ '')'') = trimmed (''('' @ ''USA'' @ '')'')"
    by (rule video_game_title_paren_only) simp
  then have t: "video_game_title ''(USA)'' = ''(USA)''"
    by (simp add: trimmed_def isSpace_def)
  show ?thesis
    by (simp add: find_videos_in_def b t Let_def games_set_def)
qed

subsection \<open>Referential pruning of the registry\<close>

lemma remove_platforms_filter:
  "remove_platforms_without_emulator es ps =
     (filter (\<lambda>p. map_of es (default_emu_id p) \<noteq> None) ps,
      map (\<lambda>p. Warn_platform_missing_emulator (plat_name p))
        (filter (\<lambda>p. map_of es (default_emu_id p) = None) ps))"
  by (induction ps) (auto split: prod.splits)

lemma read_emulator_fields_diags:
  "filter is_platform_removal (snd (read_emulator_fields w lb_dir elem st)) = []"
proof (induction elem arbitrary: st)
  case Nil
  show ?case by simp
next
  case (Cons x elem)
  obtain n tx where x: "x = (n, tx)" by (cases x)
  obtain emu_id emu where st: "st = (emu_id, emu)" by (cases st)
  show ?case
    unfolding x st using Cons.IH
    by (simp add: Let_def split_beta)
qed

lemma read_emulators_loop_diags:
  "filter is_platform_removal (snd (read_emulators_loop w lb_dir elems out)) = []"
proof (induction elems arbitrary: out)
  case Nil
  show ?case by simp
next
  case (Cons x elems)
  obtain n elem where x: "x = (n, elem)" by (cases x)
  show ?case
    unfolding x using Cons.IH
    by (simp add: Let_def split_beta read_emulator_fields_diags
        del: read_emulator_fields.simps)
qed

lemma platform_of_loop:
  "read_emulators_loop w lb_dir ((''EmulatorPlatform'', elem) # rest) out =
     read_emulators_loop w lb_dir rest
       (if \<not> plat_incomplete (platform_of w lb_dir elem)
        then out\<lparr>platforms := platforms out @ [platform_of w lb_dir elem]\<rparr> else out)"
  by (simp add: platform_of_def Let_def)

lemma read_emulators_loop_platforms:
  "platforms (fst (read_emulators_loop w lb_dir elems out)) =
     platforms out @ registry_platforms w lb_dir elems"
proof (induction elems arbitrary: out)
  case Nil
  show ?case by (simp add: registry_platforms_def)
next
  case (Cons x elems)
  obtain n elem where x: "x = (n, elem)" by (cases x)
  show ?case
  proof (cases "n = ''EmulatorPlatform''")
    case True
    show ?thesis
      unfolding x True platform_of_loop Cons.IH
      by (simp add: registry_platforms_def)
  next
    case False
    then show ?thesis
      unfolding x using Cons.IH
      by (simp add: registry_platforms_def Let_def split_beta
          del: read_emulator_fields.simps)
  qed
qed

lemma read_emulators_xml_parsed:
  assumes o: "open_xml w (lb_dir @ ''Data/Emulators.xml'') = Some xml"
    and r: "root xml = Some ''LaunchBox''"
    and l: "read_emulators_loop w lb_dir (children xml) \<lparr>emus = [], platforms = []\<rparr> = (out, ds)"
  shows "read_emulators_xml w lb_dir =
          (out\<lparr>platforms := filter (\<lambda>p. map_of (emus out) (default_emu_id p) \<noteq> None)
                   (platforms out)\<rparr>,
           ds @ (case doc_error xml of None \<Rightarrow> [] | Some e \<Rightarrow> [Warn_xml e])
           @ map (\<lambda>p. Warn_platform_missing_emulator (plat_name p))
               (filter (\<lambda>p. map_of (emus out) (default_emu_id p) = None) (platforms out)))"
  using o r l
  by (simp add: read_emulators_xml_def Let_def remove_platforms_filter
      del: read_emulators_loop.simps)

lemma read_emulators_xml_known:
  "p \<in> set (platforms (fst (read_emulators_xml w lb_dir))) \<Longrightarrow>
   map_of (emus (fst (read_emulators_xml w lb_dir))) (default_emu_id p) \<noteq> None"
  by (auto simp: read_emulators_xml_def Let_def remove_platforms_filter split_beta
      split: option.splits simp del: read_emulators_loop.simps)

lemma filter_removal_Warn_xml:
  "filter is_platform_removal (case e of None \<Rightarrow> [] | Some e \<Rightarrow> [Warn_xml e]) = []"
  by (cases e) simp_all

lemma filter_removal_map:
  "filter is_platform_removal (map (\<lambda>p. Warn_platform_missing_emulator (plat_name p)) ps) =
     map (\<lambda>p. Warn_platform_missing_emulator (plat_name p)) ps"
  by (induction ps) simp_all

text \<open>
  Claim C6. Every platform that \<open>read_emulators_xml\<close> returns refers to an emulator of
  the returned emulator map. For a registry that opens and has the root \<open>LaunchBox\<close>,
  the loop over its elements collects every complete \<^verbatim>\<open>EmulatorPlatform\<close> record,
  whatever emulators the registry defines; the result keeps the emulator map of the loop
  and exactly the collected platforms whose emulator is a key of that map, in their order,
  and the diagnostics hold exactly one removal diagnostic for each collected platform
  whose emulator is not a key, in their order. A registry that cannot be opened or has
  another root yields no platform and no removal diagnostic.
\<close>

theorem referential_pruning:
  "(\<forall>p \<in> set (platforms (fst (read_emulators_xml w lb_dir))).
      map_of (emus (fst (read_emulators_xml w lb_dir))) (default_emu_id p) \<noteq> None)
   \<and> (open_xml w (lb_dir @ ''Data/Emulators.xml'') = Some xml \<and> root xml = Some ''LaunchBox''
        \<longrightarrow>
        (let parsed = fst (read_emulators_loop w lb_dir (children xml)
                             \<lparr>emus = [], platforms = []\<rparr>);
             result = read_emulators_xml w lb_dir
         in platforms parsed = registry_platforms w lb_dir (children xml)
            \<and> emus (fst result) = emus parsed
            \<and> platforms (fst result) =
                filter (\<lambda>p. map_of (emus parsed) (default_emu_id p) \<noteq> None)
                  (registry_platforms w lb_dir (children xml))
            \<and> filter is_platform_removal (snd result) =
                map (\<lambda>p. Warn_platform_missing_emulator (plat_name p))
                  (filter (\<lambda>p. map_of (emus parsed) (default_emu_id p) = None)
                     (registry_platforms w lb_dir (children xml)))))
   \<and> (open_xml w (lb_dir @ ''Data/Emulators.xml'') = None \<longrightarrow>
        read_emulators_xml w lb_dir =
          (\<lparr>emus = [], platforms = []\<rparr>, [Warn_could_not_open (lb_dir @ ''Data/Emulators.xml'')]))
   \<and> (open_xml w (lb_dir @ ''Data/Emulators.xml'') = Some xml \<and> root xml \<noteq> Some ''LaunchBox''
        \<longrightarrow>
        fst (read_emulators_xml w lb_dir) = \<lparr>emus = [], platforms = []\<rparr>
        \<and> filter is_platform_removal (snd (read_emulators_xml w lb_dir)) = [])"
proof (intro conjI impI)
  show "\<forall>p \<in> set (platforms (fst (read_emulators_xml w lb_dir))).
      map_of (emus (fst (read_emulators_xml w lb_dir))) (default_emu_id p) \<noteq> None"
    using read_emulators_xml_known by blast
next
  assume a: "open_xml w (lb_dir @ ''Data/Emulators.xml'') = Some xml \<and> root xml = Some ''LaunchBox''"
  obtain out ds where
    l: "read_emulators_loop w lb_dir (children xml) \<lparr>emus = [], platforms = []\<rparr> = (out, ds)"
    by (cases "read_emulators_loop w lb_dir (children xml) \<lparr>emus = [], platforms = []\<rparr>")
  note x = read_emulators_xml_parsed[OF a[THEN conjunct1] a[THEN conjunct2] l]
  have p: "platforms out = registry_platforms w lb_dir (children xml)"
    using read_emulators_loop_platforms[of w lb_dir "children xml" "\<lparr>emus = [], platforms = []\<rparr>"]
      l by simp
  have nd: "filter is_platform_removal ds = []"
    using read_emulators_loop_diags[of w lb_dir "children xml" "\<lparr>emus = [], platforms = []\<rparr>"]
      l by simp
  show "let parsed = fst (read_emulators_loop w lb_dir (children xml)
                             \<lparr>emus = [], platforms = []\<rparr>);
             result = read_emulators_xml w lb_dir
         in platforms parsed = registry_platforms w lb_dir (children xml)
            \<and> emus (fst result) = emus parsed
            \<and> platforms (fst result) =
                filter (\<lambda>p. map_of (emus parsed) (default_emu_id p) \<noteq> None)
                  (registry_platforms w lb_dir (children xml))
            \<and> filter is_platform_removal (snd result) =
                map (\<lambda>p. Warn_platform_missing_emulator (plat_name p))
                  (filter (\<lambda>p. map_of (emus parsed) (default_emu_id p) = None)
                     (registry_platforms w lb_dir (children xml)))"
    unfolding Let_def x l
    by (simp add: p nd filter_removal_Warn_xml filter_removal_map)
next
  assume "open_xml w (lb_dir @ ''Data/Emulators.xml'') = None"
  then show "read_emulators_xml w lb_dir =
          (\<lparr>emus = [], platforms = []\<rparr>, [Warn_could_not_open (lb_dir @ ''Data/Emulators.xml'')])"
    by (simp add: read_emulators_xml_def)
next
  assume a: "open_xml w (lb_dir @ ''Data/Emulators.xml'') = Some xml \<and> root xml \<noteq> Some ''LaunchBox''"
  then show "fst (read_emulators_xml w lb_dir) = \<lparr>emus = [], platforms = []\<rparr>"
    by (auto simp: read_emulators_xml_def Let_def split: option.splits)
  from a show "filter is_platform_removal (snd (read_emulators_xml w lb_dir)) = []"
    by (auto simp: read_emulators_xml_def Let_def split: option.splits)
qed

lemma demo_read_emulators_xml:
  "read_emulators_xml demo_world ''/lb/'' =
     (\<lparr>emus = demo_emulators, platforms = [demo_platform]\<rparr>,
      [Warn_platform_missing_emulator ''GC''])"
  by (simp add: read_emulators_xml_def demo_world_def demo_registry_def demo_finfo_def
      demo_emulators_def demo_platform_def Let_def trimmed_def isSpace_def
      plat_incomplete_def emu_incomplete_def alist_emplace_def)

theorem referential_pruning_witness:
  "platforms (fst (read_emulators_xml demo_world ''/lb/'')) = [demo_platform]
   \<and> emus (fst (read_emulators_xml demo_world ''/lb/'')) = demo_emulators
   \<and> registry_platforms demo_world ''/lb/'' (children demo_registry) =
       [demo_platform,
        \<lparr>default_emu_id = ''dolphin'', plat_name = ''GC'', plat_cmd_params = [],
         xml_path = ''/lb/Data/Platforms/GC.xml''\<rparr>]
   \<and> filter is_platform_removal (snd (read_emulators_xml demo_world ''/lb/''))
       = [Warn_platform_missing_emulator ''GC'']
   \<and> map_of (emus (fst (read_emulators_xml demo_world ''/lb/''))) (default_emu_id demo_platform)
       \<noteq> None
   \<and> read_emulators_xml (demo_world\<lparr>open_xml := (\<lambda>p. None)\<rparr>) ''/lb/''
       = (\<lparr>emus = [], platforms = []\<rparr>, [Warn_could_not_open ''/lb/Data/Emulators.xml''])
   \<and> fst (read_emulators_xml
             (demo_world\<lparr>open_xml := (\<lambda>p. Some (demo_registry\<lparr>root := Some ''Other''\<rparr>))\<rparr>)
             ''/lb/'')
       = \<lparr>emus = [], platforms = []\<rparr>"
proof -
  have h: "open_xml demo_world (''/lb/'' @ ''Data/Emulators.xml'') = Some demo_registry
           \<and> root demo_registry = Some ''LaunchBox''"
    by (simp add: demo_world_def demo_registry_def)
  have l: "fst (read_emulators_loop demo_world ''/lb/'' (children demo_registry)
                  \<lparr>emus = [], platforms = []\<rparr>)
           = \<lparr>emus = demo_emulators,
              platforms = [demo_platform,
                \<lparr>default_emu_id = ''dolphin'', plat_name = ''GC'', plat_cmd_params = [],
                 xml_path = ''/lb/Data/Platforms/GC.xml''\<rparr>]\<rparr>"
    by (simp add: demo_world_def demo_registry_def demo_finfo_def
        demo_emulators_def demo_platform_def Let_def trimmed_def isSpace_def
        plat_incomplete_def emu_incomplete_def alist_emplace_def)
  note t = referential_pruning[where w = demo_world and lb_dir = "''/lb/''"
      and xml = demo_registry, THEN conjunct2, THEN conjunct1, rule_format, OF h,
      unfolded Let_def l]
  have c1: "platforms (fst (read_emulators_xml demo_world ''/lb/'')) = [demo_platform]"
    unfolding t[THEN conjunct2, THEN conjunct2, THEN conjunct1] t[THEN conjunct1, symmetric]
    by (simp add: demo_emulators_def demo_platform_def)
  have c2: "emus (fst (read_emulators_xml demo_world ''/lb/'')) = demo_emulators"
    unfolding t[THEN conjunct2, THEN conjunct1] by simp
  have c3: "registry_platforms demo_world ''/lb/'' (children demo_registry) =
       [demo_platform,
        \<lparr>default_emu_id = ''dolphin'', plat_name = ''GC'', plat_cmd_params = [],
         xml_path = ''/lb/Data/Platforms/GC.xml''\<rparr>]"
    unfolding t[THEN conjunct1, symmetric] by simp
  have c4: "filter is_platform_removal (snd (read_emulators_xml demo_world ''/lb/''))
       = [Warn_platform_missing_emulator ''GC'']"
    unfolding t[THEN conjunct2, THEN conjunct2, THEN conjunct2] t[THEN conjunct1, symmetric]
    by (simp add: demo_emulators_def demo_platform_def)
  have c5: "map_of (emus (fst (read_emulators_xml demo_world ''/lb/'')))
              (default_emu_id demo_platform) \<noteq> None"
    using referential_pruning[where w = demo_world and lb_dir = "''/lb/''", THEN conjunct1]
      c1 by simp
  have c6: "read_emulators_xml (demo_world\<lparr>open_xml := (\<lambda>p. None)\<rparr>) ''/lb/''
       = (\<lparr>emus = [], platforms = []\<rparr>, [Warn_could_not_open ''/lb/Data/Emulators.xml''])"
    using referential_pruning[where w = "demo_world\<lparr>open_xml := (\<lambda>p. None)\<rparr>"
        and lb_dir = "''/lb/''", THEN conjunct2, THEN conjunct2, THEN conjunct1]
    by simp
  have c7: "fst (read_emulators_xml
             (demo_world\<lparr>open_xml := (\<lambda>p. Some (demo_registry\<lparr>root := Some ''Other''\<rparr>))\<rparr>)
             ''/lb/'')
       = \<lparr>emus = [], platforms = []\<rparr>"
    using referential_pruning[where
        w = "demo_world\<lparr>open_xml := (\<lambda>p. Some (demo_registry\<lparr>root := Some ''Other''\<rparr>))\<rparr>"
        and lb_dir = "''/lb/''" and xml = "demo_registry\<lparr>root := Some ''Other''\<rparr>",
        THEN conjunct2, THEN conjunct2, THEN conjunct2]
    by simp
  show ?thesis using c1 c2 c3 c4 c5 c6 c7 by (intro conjI)
qed

subsection \<open>Skipped entries\<close>

lemma platform_xml_read_game_no_id:
  "map_of (collect_values field_map elem []) ID = None \<Longrightarrow>
   platform_xml_read_game w xmlpath elem field_map lb_dir platform emulators st =
     Some (st, [Warn_game_no_id xmlpath])"
  by (simp add: platform_xml_read_game_def Let_def split: prod.splits)

lemma platform_xml_read_game_no_path:
  "map_of (collect_values field_map elem []) ID = Some i \<Longrightarrow>
   map_of (collect_values field_map elem []) PATH = None \<Longrightarrow>
   platform_xml_read_game w xmlpath elem field_map lb_dir platform emulators st =
     Some (st, [Warn_game_no_path xmlpath i])"
  by (simp add: platform_xml_read_game_def Let_def split: prod.splits)

lemma platform_xml_read_game_no_file:
  "map_of (collect_values field_map elem []) ID = Some i \<Longrightarrow>
   map_of (collect_values field_map elem []) PATH = Some pv \<Longrightarrow>
   \<not> exists (finfo_in w lb_dir pv) \<Longrightarrow>
   platform_xml_read_game w xmlpath elem field_map lb_dir platform emulators st =
     Some (st, [Warn_game_file_missing xmlpath pv])"
  by (simp add: platform_xml_read_game_def Let_def split: prod.splits)






subsection \<open>Additional applications\<close>

lemma is_Game_pair [simp]: "is_Game (n, elem) \<longleftrightarrow> n = ''Game''"
  by (simp add: is_Game_def)

lemma is_AdditionalApplication_pair [simp]:
  "is_AdditionalApplication (n, elem) \<longleftrightarrow> n = ''AdditionalApplication''"
  by (simp add: is_AdditionalApplication_def)

lemma read_root_loop_two_passes:
  "read_root_loop w xmlpath lb_dir platform emulators es (st, aa) =
     (case read_games w xmlpath lb_dir platform emulators es st of
        None \<Rightarrow> None
      | Some (st', ds) \<Rightarrow> Some ((st', aa @ collected_addiapps es), ds))"
proof (induction es arbitrary: st aa)
  case Nil
  show ?case by (simp add: collected_addiapps_def)
next
  case (Cons e es)
  obtain n elem where e: "e = (n, elem)" by (cases e)
  show ?case
    unfolding e
    by (simp add: Cons.IH collected_addiapps_def split: option.splits prod.splits)
qed
















subsection \<open>The dedup invariant\<close>

lemma emplace_kept: "m p = Some i \<Longrightarrow> emplace m q k p = Some i"
  by (auto simp: emplace_def)

lemma emplace_cases: "emplace m q k p = Some i \<Longrightarrow> m p = Some i \<or> (p = q \<and> i = k \<and> m q = None)"
  by (auto simp: emplace_def split: if_splits)

lemma emplace_absent: "m q = None \<Longrightarrow> emplace m q k = m(q \<mapsto> k)"
  by (simp add: emplace_def)

lemma map_of_upt_keys:
  "map fst gs = [0..<length gs] \<Longrightarrow> (map_of gs k \<noteq> None) = (k < length gs)"
proof -
  assume a: "map fst gs = [0..<length gs]"
  have "(map_of gs k \<noteq> None) = (k \<in> set (map fst gs))"
    by (simp add: map_of_eq_None_iff)
  also have "\<dots> = (k < length gs)" by (simp only: a) simp
  finally show ?thesis .
qed

lemma games_set_keys [simp]: "map fst (games_set gs k g) = map fst gs"
  by (induction gs) (auto simp: games_set_def)

lemma games_set_length [simp]: "length (games_set gs k g) = length gs"
  by (simp add: games_set_def)

lemma games_set_mem:
  "(i, g) \<in> set (games_set gs k g') \<Longrightarrow> (i \<noteq> k \<and> (i, g) \<in> set gs) \<or> (i = k \<and> g = g')"
  by (auto simp: games_set_def split: if_splits)

lemma fold_store_field_files:
  "files (fst (fold (store_field w em) xs s)) = files (fst s)"
proof (induction xs arbitrary: s)
  case Nil
  show ?case by simp
next
  case (Cons x xs)
  have "files (fst (store_field w em x s)) = files (fst s)"
    by (cases "(w, em, x, s)" rule: store_field.cases) (simp_all split: option.splits)
  then show ?case using Cons.IH by simp
qed

lemma store_game_fields_files:
  "store_game_fields w g flds platform emulators = Some g' \<Longrightarrow> files g' = files g"
proof -
  assume a: "store_game_fields w g flds platform emulators = Some g'"
  then obtain e where e: "emulators (default_emu_id platform) = Some e"
    by (auto simp: store_game_fields_def split: option.splits)
  let ?s = "(g, emu_app_path e,
             if plat_cmd_params platform = [] then emu_app_path e else plat_cmd_params platform)"
  obtain h a' p where r: "fold (store_field w emulators) flds ?s = (h, a', p)"
    by (cases "fold (store_field w emulators) flds ?s")
  have "files h = files g"
    using fold_store_field_files[of w emulators flds ?s] by (simp only: r fst_conv)
  then show ?thesis
    using a e r by (auto simp: store_game_fields_def)
qed

lemma set_first_name_hd:
  "gfs \<noteq> [] \<Longrightarrow> set_first_name fi n gfs \<noteq> []
     \<and> fileinfo (hd (set_first_name fi n gfs)) = fileinfo (hd gfs)"
  by (cases gfs) auto

lemma attach_file_source:
  "files g \<noteq> [] \<Longrightarrow> files (attach_file fi nm g) \<noteq> []
     \<and> source_path (attach_file fi nm g) = source_path g"
  using set_first_name_hd[of "files g" fi]
  by (auto simp: attach_file_def source_path_def split: option.splits)

lemma scan_inv_empty: "scan_inv empty_sctx"
  by (simp add: scan_inv_def empty_sctx_def)

lemma scan_inv_unique:
  assumes "scan_inv sctx" and "(i, g) \<in> set (games sctx)" and "(j, h) \<in> set (games sctx)"
    and "source_path g = source_path h"
  shows "i = j \<and> g = h"
proof -
  have "path_to_gameid sctx (source_path g) = Some i" "path_to_gameid sctx (source_path h) = Some j"
    using assms(1-3) by (auto simp: scan_inv_def)
  then have ij: "i = j" using assms(4) by simp
  have "distinct (map fst (games sctx))"
    using assms(1) by (simp add: scan_inv_def)
  then have "g = h"
    using assms(2,3) ij by (metis eq_key_imp_eq_value)
  then show ?thesis using ij by simp
qed

lemma store_game_hit:
  "path_to_gameid sctx (canonicalFilePath finfo) = Some i \<Longrightarrow>
   store_game w finfo flds platform emulators sctx childs = Some ((i, sctx, childs @ [i]), [])"
  by (simp add: store_game_def)

lemma store_game_miss:
  assumes keys: "map fst (games sctx) = [0..<length (games sctx)]"
    and none: "path_to_gameid sctx (canonicalFilePath finfo) = None"
    and r: "store_game w finfo flds platform emulators sctx childs = Some ((i, sctx', childs'), ds)"
  shows "\<exists>g. store_game_fields w (new_Game finfo) (iterate_fields w flds) platform emulators
             = Some g
           \<and> i = length (games sctx) \<and> childs' = childs @ [i] \<and> ds = []
           \<and> sctx' = sctx\<lparr>path_to_gameid :=
                            (path_to_gameid sctx)(canonicalFilePath finfo \<mapsto> length (games sctx)),
                          games := games sctx @ [(length (games sctx), g)]\<rparr>"
proof -
  obtain g where g: "store_game_fields w (new_Game finfo) (iterate_fields w flds) platform
      emulators = Some g"
    using r none by (auto simp: store_game_def Let_def split: option.splits)
  have "map_of (games sctx) (length (games sctx)) = None"
    using map_of_upt_keys[OF keys, of "length (games sctx)"] by simp
  then have ae: "alist_emplace (games sctx) (length (games sctx)) g
                 = games sctx @ [(length (games sctx), g)]"
    by (simp add: alist_emplace_def)
  have ds: "ds = []" using r by (rule store_game_diags)
  show ?thesis
    using r none g ae ds
    by (auto simp: store_game_def Let_def emplace_absent split: if_splits)
qed

lemma new_game_source:
  "store_game_fields w (new_Game finfo) flds platform emulators = Some g \<Longrightarrow>
   files g \<noteq> [] \<and> source_path g = canonicalFilePath finfo"
  by (auto simp: source_path_def new_Game_def dest!: store_game_fields_files)

lemma scan_inv_new_game:
  assumes inv: "scan_inv sctx"
    and none: "path_to_gameid sctx p = None"
    and g: "files g \<noteq> []" "source_path g = p"
  shows "scan_inv (sctx\<lparr>path_to_gameid := (path_to_gameid sctx)(p \<mapsto> length (games sctx)),
                        games := games sctx @ [(length (games sctx), g)]\<rparr>)"
proof -
  have old: "path_to_gameid sctx (source_path h) = Some j \<and> files h \<noteq> [] \<and> source_path h \<noteq> p"
    if "(j, h) \<in> set (games sctx)" for j h
    using inv that none by (auto simp: scan_inv_def)
  have rng: "j < length (games sctx)" if "path_to_gameid sctx q = Some j" for q j
    using inv that by (auto simp: scan_inv_def)
  have ch: "j < length (games sctx)" if "collection_childs sctx n = Some c" "j \<in> set c" for n c j
    using inv that by (auto simp: scan_inv_def)
  have keys: "map fst (games sctx) = [0..<length (games sctx)]"
    using inv by (simp add: scan_inv_def)
  show ?thesis
    unfolding scan_inv_def
  proof (intro conjI)
    show "map fst (games (sctx\<lparr>path_to_gameid := (path_to_gameid sctx)(p \<mapsto> length (games sctx)),
                        games := games sctx @ [(length (games sctx), g)]\<rparr>)) =
          [0..<length (games (sctx\<lparr>path_to_gameid := (path_to_gameid sctx)(p \<mapsto> length (games sctx)),
                        games := games sctx @ [(length (games sctx), g)]\<rparr>))]"
      using keys by simp
  qed (use old rng ch g in \<open>auto simp: less_Suc_eq\<close>)
qed

lemma store_game_inv:
  assumes inv: "scan_inv sctx" and ch: "\<forall>j \<in> set childs. j < length (games sctx)"
    and r: "store_game w finfo flds platform emulators sctx childs = Some ((i, sctx', childs'), ds)"
  shows "scan_inv sctx' \<and> (\<forall>j \<in> set childs'. j < length (games sctx'))
         \<and> i < length (games sctx') \<and> length (games sctx) \<le> length (games sctx')"
proof (cases "path_to_gameid sctx (canonicalFilePath finfo)")
  case (Some j)
  have "store_game w finfo flds platform emulators sctx childs = Some ((j, sctx, childs @ [j]), [])"
    using Some by (rule store_game_hit)
  then have e: "i = j" "sctx' = sctx" "childs' = childs @ [j]" using r by simp_all
  have "j < length (games sctx)" using inv Some by (auto simp: scan_inv_def)
  then show ?thesis using e inv ch by auto
next
  case None
  have keys: "map fst (games sctx) = [0..<length (games sctx)]"
    using inv by (simp add: scan_inv_def)
  obtain g where g: "store_game_fields w (new_Game finfo) (iterate_fields w flds) platform
      emulators = Some g"
    and e: "i = length (games sctx)" "childs' = childs @ [i]"
      "sctx' = sctx\<lparr>path_to_gameid :=
                            (path_to_gameid sctx)(canonicalFilePath finfo \<mapsto> length (games sctx)),
                          games := games sctx @ [(length (games sctx), g)]\<rparr>"
    using store_game_miss[OF keys None r] by blast
  have "scan_inv sctx'"
    unfolding e(3) using new_game_source[OF g] by (intro scan_inv_new_game[OF inv None]) auto
  then show ?thesis using e ch by (auto simp: less_Suc_eq)
qed

lemma platform_xml_read_game_cases:
  assumes "platform_xml_read_game w xmlpath elem field_map lb_dir platform emulators
             (sctx, childs, gm) = Some (st', ds)"
  shows "st' = (sctx, childs, gm)
         \<or> (\<exists>finfo flds i sctx' childs' idv.
               store_game w finfo flds platform emulators sctx childs = Some ((i, sctx', childs'), ds)
               \<and> st' = (sctx', childs', emplace gm idv i))"
proof (cases "map_of (collect_values field_map elem []) ID")
  case None
  then show ?thesis using assms by (simp add: platform_xml_read_game_def)
next
  case (Some idv)
  note idv = Some
  show ?thesis
  proof (cases "map_of (collect_values field_map elem []) PATH")
    case None
    then show ?thesis using assms idv by (simp add: platform_xml_read_game_def)
  next
    case (Some pv)
    show ?thesis
    proof (cases "exists (finfo_in w lb_dir pv)")
      case False
      then show ?thesis using assms idv Some by (simp add: platform_xml_read_game_def)
    next
      case True
      obtain i sctx' childs' where
        "store_game w (finfo_in w lb_dir pv) (collect_values field_map elem []) platform
           emulators sctx childs = Some ((i, sctx', childs'), ds)"
        "st' = (sctx', childs', emplace gm idv i)"
        using assms idv Some True
        by (auto simp: platform_xml_read_game_def Let_def split: option.splits)
      then show ?thesis by blast
    qed
  qed
qed

lemma platform_xml_read_game_inv:
  assumes "st_inv st"
    and "platform_xml_read_game w xmlpath elem field_map lb_dir platform emulators st = Some (st', ds)"
  shows "st_inv st' \<and> length (games (fst st)) \<le> length (games (fst st'))"
proof -
  obtain sctx childs gm where st: "st = (sctx, childs, gm)" by (cases st)
  have inv: "scan_inv sctx" "\<forall>j \<in> set childs. j < length (games sctx)"
    "\<And>k j. gm k = Some j \<Longrightarrow> j < length (games sctx)"
    using assms(1) by (auto simp: st_inv_def st)
  from platform_xml_read_game_cases[OF assms(2)[unfolded st]]
  show ?thesis
  proof
    assume "st' = (sctx, childs, gm)"
    then show ?thesis using assms(1) st by simp
  next
    assume "\<exists>finfo flds i sctx' childs' idv.
               store_game w finfo flds platform emulators sctx childs = Some ((i, sctx', childs'), ds)
               \<and> st' = (sctx', childs', emplace gm idv i)"
    then obtain finfo flds i sctx' childs' idv where
      sg: "store_game w finfo flds platform emulators sctx childs = Some ((i, sctx', childs'), ds)"
      and st': "st' = (sctx', childs', emplace gm idv i)"
      by blast
    from store_game_inv[OF inv(1,2) sg]
    have p: "scan_inv sctx'" "\<forall>j \<in> set childs'. j < length (games sctx')"
      "i < length (games sctx')" "length (games sctx) \<le> length (games sctx')"
      by auto
    have "j < length (games sctx')" if "emplace gm idv i k = Some j" for k j
      using emplace_cases[OF that] inv(3)[of k j] p(3,4) by auto
    then show ?thesis
      using p by (auto simp: st_inv_def st st')
  qed
qed

lemma read_games_inv:
  "st_inv st \<Longrightarrow>
   read_games w xmlpath lb_dir platform emulators es st = Some (st', ds) \<Longrightarrow> st_inv st'"
proof (induction es arbitrary: st ds)
  case Nil
  then show ?case by simp
next
  case (Cons e es)
  obtain n elem where e: "e = (n, elem)" by (cases e)
  show ?case
  proof (cases "n = ''Game''")
    case False
    then show ?thesis using Cons unfolding e by simp
  next
    case True
    then obtain st1 ds1 ds2 where
      g: "platform_xml_read_game w xmlpath elem gamefield_map lb_dir platform emulators st
            = Some (st1, ds1)"
      and rest: "read_games w xmlpath lb_dir platform emulators es st1 = Some (st', ds2)"
      using Cons.prems(2) unfolding e by (auto split: option.splits)
    have "st_inv st1" using platform_xml_read_game_inv[OF Cons.prems(1) g] by simp
    then show ?thesis using Cons.IH rest by blast
  qed
qed

lemma scan_inv_attach:
  assumes inv: "scan_inv sctx"
    and game: "map_of (games sctx) gid = Some game"
    and g': "files g' \<noteq> []" "source_path g' = source_path game"
  shows "scan_inv (sctx\<lparr>games := games_set (games sctx) gid g',
                        path_to_gameid := emplace (path_to_gameid sctx) q gid\<rparr>)"
proof -
  have keys: "map fst (games sctx) = [0..<length (games sctx)]"
    using inv by (simp add: scan_inv_def)
  have mem: "(gid, game) \<in> set (games sctx)"
    using game by (rule map_of_SomeD)
  have gid: "gid < length (games sctx)"
    using map_of_upt_keys[OF keys, of gid] game by simp
  have old: "path_to_gameid sctx (source_path h) = Some j \<and> files h \<noteq> []"
    if "(j, h) \<in> set (games sctx)" for j h
    using inv that by (auto simp: scan_inv_def)
  have new: "emplace (path_to_gameid sctx) q gid (source_path h) = Some j \<and> files h \<noteq> []"
    if "(j, h) \<in> set (games_set (games sctx) gid g')" for j h
  proof -
    from games_set_mem[OF that] show ?thesis
    proof
      assume "j \<noteq> gid \<and> (j, h) \<in> set (games sctx)"
      then show ?thesis using old[of j h] by (simp add: emplace_kept)
    next
      assume "j = gid \<and> h = g'"
      then show ?thesis using old[OF mem] g' by (simp add: emplace_kept)
    qed
  qed
  have rng: "j < length (games sctx)" if "emplace (path_to_gameid sctx) q gid p = Some j" for p j
    using emplace_cases[OF that] inv gid by (auto simp: scan_inv_def)
  have ch: "j < length (games sctx)" if "collection_childs sctx n = Some c" "j \<in> set c" for n c j
    using inv that by (auto simp: scan_inv_def)
  show ?thesis
    unfolding scan_inv_def using keys new rng ch by auto
qed

lemma store_addiapp_cases:
  assumes "store_addiapp w xmlpath lb_dir vals gameid_map sctx = Some (sctx', ds)"
  shows "sctx' = sctx
         \<or> (\<exists>gi gid pv game.
               gameid_map gi = Some gid \<and> map_of (games sctx) gid = Some game
               \<and> map_of vals AA_PATH = Some pv
               \<and> sctx' = sctx\<lparr>games := games_set (games sctx) gid
                                 (attach_file (finfo_in w lb_dir pv) (map_of vals AA_NAME) game),
                               path_to_gameid := emplace (path_to_gameid sctx)
                                 (canonicalFilePath (finfo_in w lb_dir pv)) gid\<rparr>)"
  using assms
  by (auto simp: store_addiapp_def Let_def split: option.splits if_splits)

lemma store_addiapp_inv:
  assumes "scan_inv sctx" and "store_addiapp w xmlpath lb_dir vals gameid_map sctx = Some (sctx', ds)"
  shows "scan_inv sctx' \<and> length (games sctx') = length (games sctx)"
proof -
  from store_addiapp_cases[OF assms(2)] show ?thesis
  proof
    assume "sctx' = sctx"
    then show ?thesis using assms(1) by simp
  next
    assume "\<exists>gi gid pv game.
               gameid_map gi = Some gid \<and> map_of (games sctx) gid = Some game
               \<and> map_of vals AA_PATH = Some pv
               \<and> sctx' = sctx\<lparr>games := games_set (games sctx) gid
                                 (attach_file (finfo_in w lb_dir pv) (map_of vals AA_NAME) game),
                               path_to_gameid := emplace (path_to_gameid sctx)
                                 (canonicalFilePath (finfo_in w lb_dir pv)) gid\<rparr>"
    then obtain gid pv game where
      game: "map_of (games sctx) gid = Some game"
      and s': "sctx' = sctx\<lparr>games := games_set (games sctx) gid
                                 (attach_file (finfo_in w lb_dir pv) (map_of vals AA_NAME) game),
                               path_to_gameid := emplace (path_to_gameid sctx)
                                 (canonicalFilePath (finfo_in w lb_dir pv)) gid\<rparr>"
      by blast
    have "(gid, game) \<in> set (games sctx)" using game by (rule map_of_SomeD)
    then have "files game \<noteq> []" using assms(1) by (auto simp: scan_inv_def)
    then have "files (attach_file (finfo_in w lb_dir pv) (map_of vals AA_NAME) game) \<noteq> []"
      "source_path (attach_file (finfo_in w lb_dir pv) (map_of vals AA_NAME) game) = source_path game"
      using attach_file_source by blast+
    then have "scan_inv sctx'"
      unfolding s' by (rule scan_inv_attach[OF assms(1) game])
    then show ?thesis by (simp add: s')
  qed
qed

lemma store_addiapps_inv:
  "scan_inv sctx \<Longrightarrow>
   store_addiapps w xmlpath lb_dir aas gameid_map sctx = Some (sctx', ds) \<Longrightarrow> scan_inv sctx'"
proof (induction aas arbitrary: sctx ds)
  case Nil
  then show ?case by simp
next
  case (Cons vals aas)
  obtain s1 ds1 ds2 where
    a: "store_addiapp w xmlpath lb_dir vals gameid_map sctx = Some (s1, ds1)"
    and rest: "store_addiapps w xmlpath lb_dir aas gameid_map s1 = Some (sctx', ds2)"
    using Cons.prems(2) by (auto split: option.splits)
  have "scan_inv s1" using store_addiapp_inv[OF Cons.prems(1) a] by simp
  then show ?case using Cons.IH rest by blast
qed

lemma scan_inv_collections:
  "scan_inv (sctx\<lparr>collections := c\<rparr>) = scan_inv sctx"
  by (simp add: scan_inv_def)

lemma scan_inv_childs:
  "scan_inv sctx \<Longrightarrow> \<forall>j \<in> set childs. j < length (games sctx) \<Longrightarrow>
   scan_inv (sctx\<lparr>collection_childs := (collection_childs sctx)(n \<mapsto> childs)\<rparr>)"
  by (auto simp: scan_inv_def)

lemma platform_xml_read_root_inv:
  assumes inv: "scan_inv sctx"
    and r: "platform_xml_read_root w xmlpath xml lb_dir platform emulators sctx =
              Some ((sctx', err), ds)"
  shows "scan_inv sctx'"
proof (cases "root xml = Some ''LaunchBox''")
  case False
  then have "sctx' = sctx"
    using r by (auto simp: platform_xml_read_root_def split: option.splits if_splits)
  then show ?thesis using inv by simp
next
  case True
  define sctx1 where "sctx1 = sctx\<lparr>collections :=
                           emplace (collections sctx) (plat_name platform)
                             \<lparr>coll_name = plat_name platform\<rparr>\<rparr>"
  define childs where "childs = (case collection_childs sctx1 (plat_name platform) of
                             None \<Rightarrow> [] | Some c \<Rightarrow> c)"
  have i1: "scan_inv sctx1" using inv by (simp add: sctx1_def scan_inv_collections)
  have ch: "\<forall>j \<in> set childs. j < length (games sctx1)"
    using i1 unfolding childs_def scan_inv_def
    by (cases "collection_childs sctx1 (plat_name platform)") auto
  have st: "st_inv (sctx1, childs, Map.empty)"
    using i1 ch by (simp add: st_inv_def)
  obtain sctx2 childs' gm ds1 ds2 where
    g: "read_games w xmlpath lb_dir platform emulators (children xml) (sctx1, childs, Map.empty)
          = Some ((sctx2, childs', gm), ds1)"
    and a: "store_addiapps w xmlpath lb_dir (collected_addiapps (children xml)) gm
              (sctx2\<lparr>collection_childs := (collection_childs sctx2)(plat_name platform \<mapsto> childs')\<rparr>)
            = Some (sctx', ds2)"
    using r True unfolding sctx1_def childs_def
    by (auto simp: platform_xml_read_root_def read_root_loop_two_passes Let_def
        simp del: read_root_loop.simps split: option.splits)
  have "st_inv (sctx2, childs', gm)" using read_games_inv[OF st g] .
  then have "scan_inv (sctx2\<lparr>collection_childs :=
                         (collection_childs sctx2)(plat_name platform \<mapsto> childs')\<rparr>)"
    by (intro scan_inv_childs) (auto simp: st_inv_def)
  then show ?thesis using store_addiapps_inv a by blast
qed

lemma process_platform_xml_inv:
  assumes "scan_inv sctx"
    and "process_platform_xml w lb_dir platform emulators sctx = Some (sctx', ds)"
  shows "scan_inv sctx'"
proof (cases "open_xml w (xml_path platform)")
  case None
  then show ?thesis using assms by (simp add: process_platform_xml_def)
next
  case (Some xml)
  then obtain err ds1 where
    "platform_xml_read_root w (xml_path platform) xml lb_dir platform emulators sctx
       = Some ((sctx', err), ds1)"
    using assms(2) by (auto simp: process_platform_xml_def split: option.splits)
  then show ?thesis using platform_xml_read_root_inv[OF assms(1)] by blast
qed

lemma game_keys_fst: "map fst (game_keys gs) = map fst gs"
  by (induction gs) (auto simp: game_keys_def)

lemma games_set_absent: "k \<notin> fst ` set gs \<Longrightarrow> games_set gs k g' = gs"
  by (induction gs) (auto simp: games_set_def)

lemma games_set_game_keys:
  "distinct (map fst gs) \<Longrightarrow> map_of gs k = Some g \<Longrightarrow> files g' = files g \<Longrightarrow>
   game_keys (games_set gs k g') = game_keys gs"
proof (induction gs)
  case Nil
  then show ?case by simp
next
  case (Cons x gs)
  obtain i h where x: "x = (i, h)" by (cases x)
  show ?case
  proof (cases "i = k")
    case True
    then have "h = g" using Cons.prems(2) x by simp
    moreover have "k \<notin> fst ` set gs" using Cons.prems(1) x True by auto
    then have "games_set gs k g' = gs"
      by (rule games_set_absent)
    ultimately show ?thesis
      using True x Cons.prems(3) by (simp add: games_set_def game_keys_def)
  next
    case False
    then have "game_keys (games_set gs k g') = game_keys gs"
      using Cons x by simp
    then show ?thesis using False x by (simp add: games_set_def game_keys_def)
  qed
qed

lemma addFileMaybe_files [simp]: "files (addFileMaybe t p g) = files g"
  by (simp add: addFileMaybe_def)

lemma find_assets_loop_keys:
  "distinct (map fst gs) \<Longrightarrow>
   find_assets_loop asset_type has_num_suffix m fs gs = Some gs' \<Longrightarrow> game_keys gs' = game_keys gs"
proof (induction fs arbitrary: gs)
  case Nil
  then show ?case by simp
next
  case (Cons f fs)
  show ?case
  proof (cases "m (asset_game_title has_num_suffix (completeBaseName f))")
    case None
    then show ?thesis using Cons by (simp add: Let_def)
  next
    case (Some gid)
    then obtain game where game: "map_of gs gid = Some game"
      and rest: "find_assets_loop asset_type has_num_suffix m fs
                   (games_set gs gid (addFileMaybe asset_type f game)) = Some gs'"
      using Cons.prems(2) by (auto simp: Let_def split: option.splits)
    have k: "game_keys (games_set gs gid (addFileMaybe asset_type f game)) = game_keys gs"
      using Cons.prems(1) game by (intro games_set_game_keys) simp_all
    have "distinct (map fst (games_set gs gid (addFileMaybe asset_type f game)))"
      using Cons.prems(1) by simp
    from Cons.IH[OF this rest] k show ?thesis by simp
  qed
qed

lemma find_videos_loop_keys:
  "distinct (map fst gs) \<Longrightarrow> find_videos_loop m fs gs = Some gs' \<Longrightarrow> game_keys gs' = game_keys gs"
proof (induction fs arbitrary: gs)
  case Nil
  then show ?case by simp
next
  case (Cons f fs)
  define it where "it = (case m (video_game_title (completeBaseName f)) of
                  Some gameid \<Rightarrow> Some gameid
                | None \<Rightarrow> m (video_retry_title (video_game_title (completeBaseName f))))"
  show ?case
  proof (cases it)
    case None
    then show ?thesis using Cons unfolding it_def by (simp add: Let_def)
  next
    case (Some gid)
    then obtain game where game: "map_of gs gid = Some game"
      and rest: "find_videos_loop m fs (games_set gs gid (addFileMaybe VIDEOS f game)) = Some gs'"
      using Cons.prems(2) unfolding it_def by (auto simp: Let_def split: option.splits)
    have k: "game_keys (games_set gs gid (addFileMaybe VIDEOS f game)) = game_keys gs"
      using Cons.prems(1) game by (intro games_set_game_keys) simp_all
    have "distinct (map fst (games_set gs gid (addFileMaybe VIDEOS f game)))"
      using Cons.prems(1) by simp
    from Cons.IH[OF this rest] k show ?thesis by simp
  qed
qed

lemma game_keys_distinct:
  "game_keys gs' = game_keys gs \<Longrightarrow> distinct (map fst gs) \<Longrightarrow> distinct (map fst gs')"
  by (metis game_keys_fst)

lemma find_image_assets_keys:
  "distinct (map fst gs) \<Longrightarrow>
   find_image_assets w images_root adm esc gs = Some gs' \<Longrightarrow> game_keys gs' = game_keys gs"
proof (induction adm arbitrary: gs)
  case Nil
  then show ?case by simp
next
  case (Cons x adm)
  obtain dir t where x: "x = (dir, t)" by (cases x)
  obtain gs1 where
    a: "find_assets_loop t True esc (dir_files w (images_root @ dir)) gs = Some gs1"
    and rest: "find_image_assets w images_root adm esc gs1 = Some gs'"
    using Cons.prems(2) unfolding x by (auto simp: find_assets_in_def split: option.splits)
  have k: "game_keys gs1 = game_keys gs" using find_assets_loop_keys[OF Cons.prems(1) a] .
  have "distinct (map fst gs1)" using k Cons.prems(1) by (rule game_keys_distinct)
  from Cons.IH[OF this rest] k show ?case by simp
qed

lemma scan_inv_game_keys:
  assumes "scan_inv sctx" and k: "game_keys gs' = game_keys (games sctx)"
  shows "scan_inv (sctx\<lparr>games := gs'\<rparr>)"
proof -
  have f: "map fst gs' = map fst (games sctx)"
    using k game_keys_fst by metis
  then have l: "length gs' = length (games sctx)"
    by (metis length_map)
  have mem: "\<exists>h. (j, h) \<in> set (games sctx) \<and> files h = files g" if "(j, g) \<in> set gs'" for j g
  proof -
    have "(j, files g) \<in> set (game_keys gs')"
      using that by (force simp: game_keys_def)
    then have "(j, files g) \<in> set (game_keys (games sctx))" by (simp only: k)
    then show ?thesis by (auto simp: game_keys_def)
  qed
  have new: "files g \<noteq> [] \<and> path_to_gameid sctx (source_path g) = Some j"
    if jg: "(j, g) \<in> set gs'" for j g
  proof -
    obtain h where h: "(j, h) \<in> set (games sctx)" "files h = files g"
      using mem[OF jg] by blast
    then have "files h \<noteq> [] \<and> path_to_gameid sctx (source_path h) = Some j"
      using assms(1) by (auto simp: scan_inv_def)
    then show ?thesis using h(2) by (simp add: source_path_def)
  qed
  show ?thesis
    using assms(1) f l new unfolding scan_inv_def by auto
qed

lemma find_assets_inv:
  assumes inv: "scan_inv sctx" and r: "find_assets w lb_dir platform adm sctx = Some sctx'"
  shows "scan_inv sctx'"
proof (cases "collection_childs sctx (plat_name platform)")
  case None
  then show ?thesis using assms by (simp add: find_assets_def)
next
  case (Some childs)
  have d: "distinct (map fst (games sctx))"
    using inv by (simp add: scan_inv_def)
  obtain esc gs1 gs2 tm gs3 where
    a1: "find_image_assets w (lb_dir @ ''Images/'' @ plat_name platform @ ''/'') adm esc
           (games sctx) = Some gs1"
    and a2: "find_assets_loop MUSIC False esc
           (dir_files w (lb_dir @ ''Music/'' @ plat_name platform @ ''/'')) gs1 = Some gs2"
    and a3: "find_videos_loop tm
           (dir_files w (lb_dir @ ''Videos/'' @ plat_name platform @ ''/'')) gs2 = Some gs3"
    and s': "sctx' = sctx\<lparr>games := gs3\<rparr>"
    using r Some
    by (auto simp: find_assets_def find_assets_in_def find_videos_in_def split: option.splits)
  have k1: "game_keys gs1 = game_keys (games sctx)"
    using find_image_assets_keys[OF d a1] .
  have d1: "distinct (map fst gs1)" using k1 d by (rule game_keys_distinct)
  have k2: "game_keys gs2 = game_keys gs1" using find_assets_loop_keys[OF d1 a2] .
  have d2: "distinct (map fst gs2)" using k2 d1 by (rule game_keys_distinct)
  have k3: "game_keys gs3 = game_keys gs2" using find_videos_loop_keys[OF d2 a3] .
  have "game_keys gs3 = game_keys (games sctx)" using k1 k2 k3 by simp
  then show ?thesis unfolding s' by (rule scan_inv_game_keys[OF inv])
qed

lemma process_platforms_inv:
  "scan_inv sctx \<Longrightarrow> process_platforms w lb_dir emulators ps sctx = Some (sctx', ds) \<Longrightarrow>
   scan_inv sctx'"
proof (induction ps arbitrary: sctx ds)
  case Nil
  then show ?case by simp
next
  case (Cons p ps)
  obtain s1 ds1 s2 ds2 where
    a: "process_platform_xml w lb_dir p emulators sctx = Some (s1, ds1)"
    and b: "find_assets w lb_dir p assetdir_map s1 = Some s2"
    and c: "process_platforms w lb_dir emulators ps s2 = Some (sctx', ds2)"
    using Cons.prems(2) by (auto split: option.splits)
  have "scan_inv s1" using process_platform_xml_inv[OF Cons.prems(1) a] .
  then have "scan_inv s2" using find_assets_inv b by blast
  then show ?case using Cons.IH c by blast
qed

lemma findLists_inv:
  assumes "scan_inv sctx" and "findLists w lb_dir sctx = Some (sctx', ds)"
  shows "scan_inv sctx'"
proof -
  obtain ed ds0 where e: "read_emulators_xml w lb_dir = (ed, ds0)"
    by (cases "read_emulators_xml w lb_dir")
  show ?thesis
  proof (cases "emus ed = [] \<or> platforms ed = []")
    case True
    then have "sctx' = sctx"
      using assms(2) e by (auto simp: findLists_def split: if_splits)
    then show ?thesis using assms(1) by simp
  next
    case False
    then obtain ds1 where
      "process_platforms w lb_dir (map_of (emus ed)) (platforms ed) sctx = Some (sctx', ds1)"
      using assms(2) e by (auto simp: findLists_def split: option.splits)
    then show ?thesis using process_platforms_inv[OF assms(1)] by blast
  qed
qed

lemma emplace_case:
  "emplace m q k = (case m q of None \<Rightarrow> m(q \<mapsto> k) | Some j \<Rightarrow> m)"
  by (simp add: emplace_def split: option.splits)

lemma store_addiapp_success:
  assumes "store_addiapp w xmlpath lb_dir vals gameid_map sctx = Some (sctx', [])"
  shows "\<exists>gi gid pv.
           map_of vals AA_GAME_ID = Some gi \<and> gameid_map gi = Some gid
           \<and> map_of vals AA_PATH = Some pv
           \<and> path_to_gameid sctx' =
               emplace (path_to_gameid sctx) (canonicalFilePath (finfo_in w lb_dir pv)) gid"
  using assms
  by (auto simp: store_addiapp_def Let_def split: option.splits if_splits)

lemma demo_platform_file:
  "map_option (\<lambda>r. (path_to_gameid (fst (fst r)) ''/lb/roms/b.rom'',
                     map_option (\<lambda>g. (title g, map (\<lambda>gf. filePath (fileinfo gf)) (files g)))
                       (map_of (games (fst (fst r))) 0),
                     map_option title (map_of (games (fst (fst r))) 1),
                     snd r))
     (platform_xml_read_root demo_world ''/lb/Data/Platforms/SNES.xml'' demo_snes ''/lb/''
        demo_platform (map_of demo_emulators) empty_sctx)
   = Some (Some 1, Some (''Zelda'', [''/lb/roms/a.rom'', ''/lb/roms/b.rom'']), Some ''Mario'',
           [Warn_game_file_missing ''/lb/Data/Platforms/SNES.xml'' ''roms/missing.rom''])"
  by (simp add: platform_xml_read_root_def demo_snes_def demo_world_def demo_finfo_def
      demo_platform_def demo_emulators_def empty_sctx_def platform_xml_read_game_def
      store_game_def store_game_fields_def store_addiapp_def attach_file_def
      gamefield_map_def addiappfield_map_def trimmed_def isSpace_def alist_emplace_def
      emplace_def new_Game_def games_set_def finfo_eq_def Let_def launch_template_def)

lemma demo_findLists:
  "map_option (\<lambda>r. (map fst (games (fst r)), snd r)) (findLists demo_world ''/lb/'' empty_sctx)
   = Some ([0, 1],
           [Warn_platform_missing_emulator ''GC'',
            Warn_game_file_missing ''/lb/Data/Platforms/SNES.xml'' ''roms/missing.rom''])"
proof -
  have a: "map_option (\<lambda>r. (map fst (games (fst r)),
                               map_option (map title) (those (map (map_of (games (fst r))) [0, 1])),
                               collection_childs (fst r) ''SNES'', snd r))
             (process_platform_xml demo_world ''/lb/'' demo_platform (map_of demo_emulators)
                empty_sctx)
           = Some ([0, 1], Some [''Zelda'', ''Mario''], Some [0, 1],
                   [Warn_game_file_missing ''/lb/Data/Platforms/SNES.xml'' ''roms/missing.rom''])"
    by (simp add: process_platform_xml_def platform_xml_read_root_def demo_snes_def
        demo_world_def demo_finfo_def
        demo_platform_def demo_emulators_def empty_sctx_def platform_xml_read_game_def
        store_game_def store_game_fields_def store_addiapp_def attach_file_def
        gamefield_map_def addiappfield_map_def trimmed_def isSpace_def alist_emplace_def
        emplace_def new_Game_def games_set_def finfo_eq_def Let_def launch_template_def)
  then obtain s where s: "process_platform_xml demo_world ''/lb/'' demo_platform
        (map_of demo_emulators) empty_sctx
        = Some (s, [Warn_game_file_missing ''/lb/Data/Platforms/SNES.xml'' ''roms/missing.rom''])"
    and g: "map fst (games s) = [0, 1]"
    and t: "those (map (map_of (games s)) [0, 1]) \<noteq> None"
    and c: "collection_childs s ''SNES'' = Some [0, 1]"
    by auto
  obtain g0 g1 where m: "map_of (games s) 0 = Some g0" "map_of (games s) 1 = Some g1"
    using t by (auto split: option.splits)
  have d: "dir_files demo_world x = []" for x by (simp add: demo_world_def)
  have i: "find_image_assets demo_world root adm esc gs = Some gs" for root adm esc gs
    by (induction adm) (auto simp: find_assets_in_def d)
  have f: "find_assets demo_world ''/lb/'' demo_platform assetdir_map s = Some (s\<lparr>games := games s\<rparr>)"
    using c m
    by (simp add: find_assets_def demo_platform_def build_escaped_title_map_def i
        find_assets_in_def find_videos_in_def d)
  show ?thesis
    using s f g by (simp add: findLists_def demo_read_emulators_xml demo_emulators_def)
qed

subsection \<open>The scan returns\<close>

text \<open>No \<^verbatim>\<open>at\<close> of the pipeline throws when the context satisfies \<open>scan_inv\<close> and the
  platforms refer to emulators of the map.\<close>

lemma platform_xml_read_game_returns:
  assumes "emulators (default_emu_id platform) = Some e"
  shows "\<exists>r. platform_xml_read_game w xmlpath elem field_map lb_dir platform emulators st = Some r"
proof (cases "map_of (collect_values field_map elem []) ID")
  case None
  then show ?thesis using platform_xml_read_game_no_id by blast
next
  case (Some idv)
  note idv = Some
  show ?thesis
  proof (cases "map_of (collect_values field_map elem []) PATH")
    case None
    then show ?thesis using idv platform_xml_read_game_no_path by blast
  next
    case (Some pv)
    show ?thesis
    proof (cases "exists (finfo_in w lb_dir pv)")
      case False
      then show ?thesis using idv Some platform_xml_read_game_no_file by blast
    next
      case True
      obtain sctx childs gm where st: "st = (sctx, childs, gm)" by (cases st)
      obtain r where r: "store_game w (finfo_in w lb_dir pv) (collect_values field_map elem [])
                           platform emulators sctx childs = Some (r, [])"
        using store_game_returns[where emulators = emulators and platform = platform and e = e,
            OF assms] by blast
      obtain i s' c' where "r = (i, s', c')" by (cases r)
      then show ?thesis
        using r idv Some True unfolding st
        by (simp add: platform_xml_read_game_def del: split_paired_Ex)
    qed
  qed
qed

lemma read_games_returns:
  assumes "emulators (default_emu_id platform) = Some e"
  shows "\<exists>r. read_games w xmlpath lb_dir platform emulators es st = Some r"
proof (induction es arbitrary: st)
  case Nil
  show ?case by (simp del: split_paired_Ex)
next
  case (Cons x es)
  obtain n elem where x: "x = (n, elem)" by (cases x)
  show ?case
  proof (cases "n = ''Game''")
    case False
    then show ?thesis using Cons.IH[of st] unfolding x by (simp del: split_paired_Ex)
  next
    case True
    obtain r where
      "platform_xml_read_game w xmlpath elem gamefield_map lb_dir platform emulators st = Some r"
      using platform_xml_read_game_returns[where emulators = emulators and platform = platform
          and e = e, OF assms] by blast
    moreover obtain st1 ds1 where "r = (st1, ds1)" by (cases r)
    moreover obtain r2 where "read_games w xmlpath lb_dir platform emulators es st1 = Some r2"
      using Cons.IH by blast
    moreover obtain st2 ds2 where "r2 = (st2, ds2)" by (cases r2)
    ultimately show ?thesis using True unfolding x by (simp del: split_paired_Ex)
  qed
qed

lemma map_of_key: "i \<in> fst ` set gs \<Longrightarrow> \<exists>g. map_of gs i = Some g"
  by (cases "map_of gs i") (auto simp: map_of_eq_None_iff)

lemma upt_key: "map fst gs = [0..<length gs] \<Longrightarrow> i < length gs \<Longrightarrow> i \<in> fst ` set gs"
proof -
  assume a: "map fst gs = [0..<length gs]" and b: "i < length gs"
  have "i \<in> set (map fst gs)" by (simp only: a) (simp add: b)
  then show ?thesis by simp
qed

lemma games_set_key_set [simp]: "fst ` set (games_set gs k g) = fst ` set gs"
proof -
  have "set (map fst (games_set gs k g)) = set (map fst gs)" by (simp only: games_set_keys)
  then show ?thesis by (simp only: set_map)
qed

lemma store_addiapp_returns:
  assumes "scan_inv sctx" and gm: "\<And>k i. gameid_map k = Some i \<Longrightarrow> i < length (games sctx)"
  shows "\<exists>r. store_addiapp w xmlpath lb_dir vals gameid_map sctx = Some r"
proof -
  have keys: "map fst (games sctx) = [0..<length (games sctx)]"
    using assms(1) by (simp add: scan_inv_def)
  have mo: "\<exists>g. map_of (games sctx) i = Some g" if "gameid_map k = Some i" for k i
    using upt_key[OF keys gm[OF that]] by (rule map_of_key)
  show ?thesis
    by (auto simp: store_addiapp_def Let_def simp del: split_paired_Ex
        split: option.splits dest!: mo)
qed

lemma store_addiapps_returns:
  "scan_inv sctx \<Longrightarrow> (\<And>k i. gameid_map k = Some i \<Longrightarrow> i < length (games sctx)) \<Longrightarrow>
   \<exists>r. store_addiapps w xmlpath lb_dir aas gameid_map sctx = Some r"
proof (induction aas arbitrary: sctx)
  case Nil
  show ?case by (simp del: split_paired_Ex)
next
  case (Cons vals aas)
  have "\<exists>r. store_addiapp w xmlpath lb_dir vals gameid_map sctx = Some r"
  proof (rule store_addiapp_returns[OF Cons.prems(1)])
    fix k i assume "gameid_map k = Some i"
    then show "i < length (games sctx)" by (rule Cons.prems(2))
  qed
  then obtain r where r: "store_addiapp w xmlpath lb_dir vals gameid_map sctx = Some r"
    by blast
  obtain s1 ds1 where r1: "r = (s1, ds1)" by (cases r)
  have i: "scan_inv s1" "length (games s1) = length (games sctx)"
    using store_addiapp_inv[OF Cons.prems(1) r[unfolded r1]] by simp_all
  have "\<exists>r. store_addiapps w xmlpath lb_dir aas gameid_map s1 = Some r"
  proof (rule Cons.IH[OF i(1)])
    fix k j assume "gameid_map k = Some j"
    then show "j < length (games s1)" using Cons.prems(2) i(2) by simp
  qed
  then obtain r2 where r2: "store_addiapps w xmlpath lb_dir aas gameid_map s1 = Some r2"
    by blast
  obtain s2 ds2 where "r2 = (s2, ds2)" by (cases r2)
  then show ?case using r r1 r2 by (simp del: split_paired_Ex)
qed

lemma platform_xml_read_root_returns:
  assumes inv: "scan_inv sctx" and em: "emulators (default_emu_id platform) = Some e"
  shows "\<exists>r. platform_xml_read_root w xmlpath xml lb_dir platform emulators sctx = Some r"
proof (cases "root xml = Some ''LaunchBox''")
  case False
  then show ?thesis
    by (auto simp: platform_xml_read_root_def simp del: split_paired_Ex split: option.splits)
next
  case True
  define sctx1 where "sctx1 = sctx\<lparr>collections :=
                           emplace (collections sctx) (plat_name platform)
                             \<lparr>coll_name = plat_name platform\<rparr>\<rparr>"
  define childs where "childs = (case collection_childs sctx1 (plat_name platform) of
                             None \<Rightarrow> [] | Some c \<Rightarrow> c)"
  have i1: "scan_inv sctx1" using inv by (simp add: sctx1_def scan_inv_collections)
  have ch: "\<forall>j \<in> set childs. j < length (games sctx1)"
    using i1 unfolding childs_def scan_inv_def
    by (cases "collection_childs sctx1 (plat_name platform)") auto
  have st: "st_inv (sctx1, childs, Map.empty)"
    using i1 ch by (simp add: st_inv_def)
  obtain r where
    g: "read_games w xmlpath lb_dir platform emulators (children xml) (sctx1, childs, Map.empty)
          = Some r"
    using read_games_returns[where emulators = emulators and platform = platform and e = e,
        OF em] by blast
  obtain sctx2 childs' gm ds1 where r: "r = ((sctx2, childs', gm), ds1)"
    by (cases r) auto
  have si: "st_inv (sctx2, childs', gm)" using read_games_inv[OF st g[unfolded r]] .
  define sctx3 where
    "sctx3 = sctx2\<lparr>collection_childs := (collection_childs sctx2)(plat_name platform \<mapsto> childs')\<rparr>"
  have i3: "scan_inv sctx3"
    unfolding sctx3_def using si by (intro scan_inv_childs) (auto simp: st_inv_def)
  have "\<exists>r. store_addiapps w xmlpath lb_dir (collected_addiapps (children xml)) gm sctx3 = Some r"
  proof (rule store_addiapps_returns[OF i3])
    fix k i assume "gm k = Some i"
    then show "i < length (games sctx3)" using si by (auto simp: st_inv_def sctx3_def)
  qed
  then obtain r4 where
    a: "store_addiapps w xmlpath lb_dir (collected_addiapps (children xml)) gm sctx3 = Some r4"
    by blast
  obtain s4 ds2 where r4: "r4 = (s4, ds2)" by (cases r4)
  show ?thesis
    using True g r a r4 unfolding sctx1_def childs_def sctx3_def
    by (simp add: platform_xml_read_root_def read_root_loop_two_passes Let_def
        del: read_root_loop.simps split_paired_Ex)
qed

lemma process_platform_xml_returns:
  assumes "scan_inv sctx" and "emulators (default_emu_id platform) = Some e"
  shows "\<exists>r. process_platform_xml w lb_dir platform emulators sctx = Some r"
proof (cases "open_xml w (xml_path platform)")
  case None
  then show ?thesis by (simp add: process_platform_xml_def del: split_paired_Ex)
next
  case (Some xml)
  obtain r where
    r: "platform_xml_read_root w (xml_path platform) xml lb_dir platform emulators sctx = Some r"
    using platform_xml_read_root_returns[where emulators = emulators and platform = platform
        and e = e, OF assms] by blast
  obtain s err ds where "r = ((s, err), ds)" by (cases r) auto
  then show ?thesis using Some r by (simp add: process_platform_xml_def del: split_paired_Ex)
qed

lemma build_title_map_returns:
  "(\<And>i. i \<in> set childs \<Longrightarrow> i \<in> fst ` set gs) \<Longrightarrow>
   (\<And>t i. out t = Some i \<Longrightarrow> i \<in> fst ` set gs) \<Longrightarrow>
   \<exists>m. build_title_map esc childs gs out = Some m \<and> (\<forall>t i. m t = Some i \<longrightarrow> i \<in> fst ` set gs)"
proof (induction childs arbitrary: out)
  case Nil
  show ?case using Nil.prems(2) by simp
next
  case (Cons c childs)
  have cg: "c \<in> fst ` set gs" using Cons.prems(1) by simp
  obtain g where g: "map_of gs c = Some g" using map_of_key[OF cg] by blast
  have "\<exists>m. build_title_map esc childs gs (emplace out (esc (title g)) c) = Some m
              \<and> (\<forall>t i. m t = Some i \<longrightarrow> i \<in> fst ` set gs)"
  proof (rule Cons.IH)
    fix i assume "i \<in> set childs"
    then show "i \<in> fst ` set gs" using Cons.prems(1) by simp
  next
    fix t i assume "emplace out (esc (title g)) c t = Some i"
    from emplace_cases[OF this] show "i \<in> fst ` set gs"
      using Cons.prems(2)[of t i] cg by auto
  qed
  then show ?case using g by simp
qed

lemma find_assets_loop_returns:
  "(\<And>t i. m t = Some i \<Longrightarrow> i \<in> fst ` set gs) \<Longrightarrow>
   \<exists>gs'. find_assets_loop asset_type has_num_suffix m fs gs = Some gs'
          \<and> fst ` set gs' = fst ` set gs"
proof (induction fs arbitrary: gs)
  case Nil
  show ?case by simp
next
  case (Cons f fs)
  show ?case
  proof (cases "m (asset_game_title has_num_suffix (completeBaseName f))")
    case None
    then show ?thesis using Cons.IH[of gs] Cons.prems by (simp add: Let_def)
  next
    case (Some gid)
    then have gg: "gid \<in> fst ` set gs" by (rule Cons.prems)
    obtain game where game: "map_of gs gid = Some game" using map_of_key[OF gg] by blast
    let ?gs = "games_set gs gid (addFileMaybe asset_type f game)"
    have "\<exists>gs'. find_assets_loop asset_type has_num_suffix m fs ?gs = Some gs'
          \<and> fst ` set gs' = fst ` set ?gs"
    proof (rule Cons.IH)
      fix t i assume "m t = Some i"
      then show "i \<in> fst ` set ?gs" using Cons.prems by simp
    qed
    then show ?thesis using Some game by (simp add: Let_def)
  qed
qed

lemma find_videos_loop_returns:
  "(\<And>t i. m t = Some i \<Longrightarrow> i \<in> fst ` set gs) \<Longrightarrow>
   \<exists>gs'. find_videos_loop m fs gs = Some gs'"
proof (induction fs arbitrary: gs)
  case Nil
  show ?case by simp
next
  case (Cons f fs)
  define it where "it = (case m (video_game_title (completeBaseName f)) of
                  Some gameid \<Rightarrow> Some gameid
                | None \<Rightarrow> m (video_retry_title (video_game_title (completeBaseName f))))"
  show ?case
  proof (cases it)
    case None
    then show ?thesis using Cons.IH[of gs] Cons.prems unfolding it_def by (simp add: Let_def)
  next
    case (Some gid)
    then have "\<exists>t. m t = Some gid"
      unfolding it_def by (auto split: option.splits)
    then obtain t where "m t = Some gid" by blast
    then have gg: "gid \<in> fst ` set gs" by (rule Cons.prems)
    obtain game where game: "map_of gs gid = Some game" using map_of_key[OF gg] by blast
    let ?gs = "games_set gs gid (addFileMaybe VIDEOS f game)"
    have "\<exists>gs'. find_videos_loop m fs ?gs = Some gs'"
    proof (rule Cons.IH)
      fix t i assume "m t = Some i"
      then show "i \<in> fst ` set ?gs" using Cons.prems by simp
    qed
    then show ?thesis using Some game unfolding it_def by (simp add: Let_def)
  qed
qed

lemma find_image_assets_returns:
  "(\<And>t i. esc t = Some i \<Longrightarrow> i \<in> fst ` set gs) \<Longrightarrow>
   \<exists>gs'. find_image_assets w images_root adm esc gs = Some gs'
          \<and> fst ` set gs' = fst ` set gs"
proof (induction adm arbitrary: gs)
  case Nil
  show ?case by simp
next
  case (Cons x adm)
  obtain dir t where x: "x = (dir, t)" by (cases x)
  have "\<exists>gs'. find_assets_loop t True esc (dir_files w (images_root @ dir)) gs = Some gs'
          \<and> fst ` set gs' = fst ` set gs"
    by (rule find_assets_loop_returns) (rule Cons.prems)
  then obtain gs1 where
    a: "find_assets_loop t True esc (dir_files w (images_root @ dir)) gs = Some gs1"
    and k: "fst ` set gs1 = fst ` set gs"
    by blast
  have "\<exists>gs'. find_image_assets w images_root adm esc gs1 = Some gs'
          \<and> fst ` set gs' = fst ` set gs1"
  proof (rule Cons.IH)
    fix t i assume "esc t = Some i"
    then show "i \<in> fst ` set gs1" using Cons.prems k by simp
  qed
  then show ?case using a k unfolding x by (auto simp: find_assets_in_def)
qed

lemma find_assets_returns:
  assumes inv: "scan_inv sctx"
  shows "\<exists>s. find_assets w lb_dir platform adm sctx = Some s"
proof (cases "collection_childs sctx (plat_name platform)")
  case None
  then show ?thesis by (simp add: find_assets_def)
next
  case (Some childs)
  have keys: "map fst (games sctx) = [0..<length (games sctx)]"
    using inv by (simp add: scan_inv_def)
  have ch: "i \<in> fst ` set (games sctx)" if "i \<in> set childs" for i
  proof -
    have "i < length (games sctx)" using inv Some that by (auto simp: scan_inv_def)
    then show ?thesis by (rule upt_key[OF keys])
  qed
  have "\<exists>m. build_title_map escape_title childs (games sctx) Map.empty = Some m
          \<and> (\<forall>t i. m t = Some i \<longrightarrow> i \<in> fst ` set (games sctx))"
    by (rule build_title_map_returns) (use ch in auto)
  then obtain esc where
    e: "build_escaped_title_map childs (games sctx) = Some esc"
    and ev: "\<And>t i. esc t = Some i \<Longrightarrow> i \<in> fst ` set (games sctx)"
    unfolding build_escaped_title_map_def by blast
  have "\<exists>gs'. find_image_assets w (lb_dir @ ''Images/'' @ plat_name platform @ ''/'') adm esc
                 (games sctx) = Some gs' \<and> fst ` set gs' = fst ` set (games sctx)"
    by (rule find_image_assets_returns) (rule ev)
  then obtain gs1 where
    a1: "find_image_assets w (lb_dir @ ''Images/'' @ plat_name platform @ ''/'') adm esc
           (games sctx) = Some gs1"
    and k1: "fst ` set gs1 = fst ` set (games sctx)"
    by blast
  have "\<exists>gs'. find_assets_loop MUSIC False esc
                 (dir_files w (lb_dir @ ''Music/'' @ plat_name platform @ ''/'')) gs1 = Some gs'
               \<and> fst ` set gs' = fst ` set gs1"
  proof (rule find_assets_loop_returns)
    fix t i assume "esc t = Some i"
    then show "i \<in> fst ` set gs1" using ev k1 by simp
  qed
  then obtain gs2 where
    a2: "find_assets_loop MUSIC False esc
           (dir_files w (lb_dir @ ''Music/'' @ plat_name platform @ ''/'')) gs1 = Some gs2"
    and k2: "fst ` set gs2 = fst ` set gs1"
    by blast
  have "\<exists>m. build_title_map (\<lambda>t. t) childs gs2 Map.empty = Some m
          \<and> (\<forall>t i. m t = Some i \<longrightarrow> i \<in> fst ` set gs2)"
    by (rule build_title_map_returns) (use ch k1 k2 in auto)
  then obtain tm where
    t: "build_title_map (\<lambda>t. t) childs gs2 Map.empty = Some tm"
    and tv: "\<And>t i. tm t = Some i \<Longrightarrow> i \<in> fst ` set gs2"
    by blast
  have "\<exists>gs'. find_videos_loop tm
                 (dir_files w (lb_dir @ ''Videos/'' @ plat_name platform @ ''/'')) gs2 = Some gs'"
    by (rule find_videos_loop_returns) (rule tv)
  then obtain gs3 where
    a3: "find_videos_loop tm
           (dir_files w (lb_dir @ ''Videos/'' @ plat_name platform @ ''/'')) gs2 = Some gs3"
    by blast
  show ?thesis
    using Some e a1 a2 t a3
    by (simp add: find_assets_def find_assets_in_def find_videos_in_def)
qed

lemma process_platforms_returns:
  "scan_inv sctx \<Longrightarrow> (\<And>p. p \<in> set ps \<Longrightarrow> \<exists>e. emulators (default_emu_id p) = Some e) \<Longrightarrow>
   \<exists>r. process_platforms w lb_dir emulators ps sctx = Some r"
proof (induction ps arbitrary: sctx)
  case Nil
  show ?case by (simp del: split_paired_Ex)
next
  case (Cons p ps)
  obtain e where e: "emulators (default_emu_id p) = Some e"
    using Cons.prems(2)[of p] by auto
  obtain r1 where r1: "process_platform_xml w lb_dir p emulators sctx = Some r1"
    using process_platform_xml_returns[where emulators = emulators and platform = p and e = e,
        OF Cons.prems(1) e] by blast
  obtain s1 ds1 where p1: "r1 = (s1, ds1)" by (cases r1)
  have i1: "scan_inv s1" using process_platform_xml_inv[OF Cons.prems(1) r1[unfolded p1]] .
  obtain s2 where s2: "find_assets w lb_dir p assetdir_map s1 = Some s2"
    using find_assets_returns[OF i1] by blast
  have i2: "scan_inv s2" using find_assets_inv[OF i1 s2] .
  have "\<exists>r. process_platforms w lb_dir emulators ps s2 = Some r"
  proof (rule Cons.IH[OF i2])
    fix q assume "q \<in> set ps"
    then show "\<exists>e. emulators (default_emu_id q) = Some e" using Cons.prems(2)[of q] by simp
  qed
  then obtain r3 where r3: "process_platforms w lb_dir emulators ps s2 = Some r3" by blast
  obtain s3 ds3 where "r3 = (s3, ds3)" by (cases r3)
  then show ?case using r1 p1 s2 r3 by (simp del: split_paired_Ex)
qed

lemma findLists_returns:
  assumes "scan_inv sctx"
  shows "\<exists>r. findLists w lb_dir sctx = Some r"
proof -
  obtain ed ds0 where e: "read_emulators_xml w lb_dir = (ed, ds0)"
    by (cases "read_emulators_xml w lb_dir")
  have "\<exists>r. process_platforms w lb_dir (map_of (emus ed)) (platforms ed) sctx = Some r"
  proof (rule process_platforms_returns[OF assms])
    fix p assume "p \<in> set (platforms ed)"
    then have "map_of (emus ed) (default_emu_id p) \<noteq> None"
      using read_emulators_xml_known[of p w lb_dir] by (simp add: e)
    then show "\<exists>e. map_of (emus ed) (default_emu_id p) = Some e" by auto
  qed
  then obtain r where r: "process_platforms w lb_dir (map_of (emus ed)) (platforms ed) sctx = Some r"
    by blast
  obtain s ds where "r = (s, ds)" by (cases r)
  then show ?thesis
    using e r by (simp add: findLists_def del: split_paired_Ex)
qed

subsection \<open>The dedup invariant of the scan\<close>

text \<open>
  Claim C1, as amended. A scan that starts from a context satisfying \<open>scan_inv\<close> (the
  empty context does) returns, and it ends in such a context: two game records with the
  same canonical source path are the same record. \<open>store_game\<close> consults the dedup index first: on a hit it returns
  the indexed id and only appends it to the child list; on a miss it creates the game
  under the next id and registers it under its canonical path. \<open>store_addiapp\<close>
  registers the canonical path of the file pointing at the game of the entry unless the
  index already holds that path, in which case the existing entry stays.
\<close>

theorem dedup_invariant:
  "(scan_inv sctx \<longrightarrow> findLists w lb_dir sctx \<noteq> None)
   \<and> (scan_inv sctx \<and> findLists w lb_dir sctx = Some (sctx', ds) \<longrightarrow>
      scan_inv sctx'
      \<and> (\<forall>i g j h. (i, g) \<in> set (games sctx') \<and> (j, h) \<in> set (games sctx')
                    \<and> source_path g = source_path h \<longrightarrow> i = j \<and> g = h))
   \<and> (path_to_gameid sctx (canonicalFilePath finfo) = Some i \<longrightarrow>
        store_game w finfo flds platform emulators sctx childs = Some ((i, sctx, childs @ [i]), []))
   \<and> (scan_inv sctx \<and> path_to_gameid sctx (canonicalFilePath finfo) = None
        \<and> store_game w finfo flds platform emulators sctx childs = Some ((k, sctxa, childsa), dsa)
        \<longrightarrow> k = length (games sctx) \<and> childsa = childs @ [k]
            \<and> path_to_gameid sctxa = (path_to_gameid sctx)(canonicalFilePath finfo \<mapsto> k)
            \<and> (\<exists>g. games sctxa = games sctx @ [(k, g)] \<and> source_path g = canonicalFilePath finfo))
   \<and> (store_addiapp w xmlpath lb_dir vals gameid_map sctx = Some (sctxb, []) \<longrightarrow>
        (\<exists>gi gid pv.
           map_of vals AA_GAME_ID = Some gi \<and> gameid_map gi = Some gid
           \<and> map_of vals AA_PATH = Some pv
           \<and> path_to_gameid sctxb =
               (case path_to_gameid sctx (canonicalFilePath (finfo_in w lb_dir pv)) of
                  None \<Rightarrow> (path_to_gameid sctx)(canonicalFilePath (finfo_in w lb_dir pv) \<mapsto> gid)
                | Some j \<Rightarrow> path_to_gameid sctx)))"
proof (intro conjI impI)
  assume "scan_inv sctx"
  then show "findLists w lb_dir sctx \<noteq> None"
    using findLists_returns[of sctx w lb_dir] by auto
next
  assume a: "scan_inv sctx \<and> findLists w lb_dir sctx = Some (sctx', ds)"
  then show "scan_inv sctx'" using findLists_inv by blast
  then show "\<forall>i g j h. (i, g) \<in> set (games sctx') \<and> (j, h) \<in> set (games sctx')
                    \<and> source_path g = source_path h \<longrightarrow> i = j \<and> g = h"
    using scan_inv_unique by blast
next
  assume "path_to_gameid sctx (canonicalFilePath finfo) = Some i"
  then show "store_game w finfo flds platform emulators sctx childs = Some ((i, sctx, childs @ [i]), [])"
    by (rule store_game_hit)
next
  assume a: "scan_inv sctx \<and> path_to_gameid sctx (canonicalFilePath finfo) = None
        \<and> store_game w finfo flds platform emulators sctx childs = Some ((k, sctxa, childsa), dsa)"
  then have keys: "map fst (games sctx) = [0..<length (games sctx)]"
    by (simp add: scan_inv_def)
  from a obtain g where g: "store_game_fields w (new_Game finfo) (iterate_fields w flds) platform
      emulators = Some g"
    and e: "k = length (games sctx)" "childsa = childs @ [k]"
      "sctxa = sctx\<lparr>path_to_gameid :=
                            (path_to_gameid sctx)(canonicalFilePath finfo \<mapsto> length (games sctx)),
                          games := games sctx @ [(length (games sctx), g)]\<rparr>"
    using store_game_miss[OF keys, of finfo w flds platform emulators childs k sctxa childsa dsa]
    by blast
  show "k = length (games sctx)" "childsa = childs @ [k]" by (fact e)+
  show "path_to_gameid sctxa = (path_to_gameid sctx)(canonicalFilePath finfo \<mapsto> k)"
    using e by simp
  show "\<exists>g. games sctxa = games sctx @ [(k, g)] \<and> source_path g = canonicalFilePath finfo"
    using e new_game_source[OF g] by auto
next
  assume "store_addiapp w xmlpath lb_dir vals gameid_map sctx = Some (sctxb, [])"
  from store_addiapp_success[OF this]
  show "\<exists>gi gid pv.
           map_of vals AA_GAME_ID = Some gi \<and> gameid_map gi = Some gid
           \<and> map_of vals AA_PATH = Some pv
           \<and> path_to_gameid sctxb =
               (case path_to_gameid sctx (canonicalFilePath (finfo_in w lb_dir pv)) of
                  None \<Rightarrow> (path_to_gameid sctx)(canonicalFilePath (finfo_in w lb_dir pv) \<mapsto> gid)
                | Some j \<Rightarrow> path_to_gameid sctx)"
    by (simp only: emplace_case)
qed

theorem dedup_invariant_witness:
  "(\<exists>s d. findLists demo_world ''/lb/'' empty_sctx = Some (s, d) \<and> scan_inv s
          \<and> map fst (games s) = [0, 1])
   \<and> store_game demo_world (demo_finfo ''/lb/'' ''roms/a.rom'') [(ID, ''g1'')] demo_platform
        (map_of demo_emulators) (empty_sctx\<lparr>path_to_gameid := [''/lb/roms/a.rom'' \<mapsto> 0]\<rparr>) [7]
      = Some ((0, empty_sctx\<lparr>path_to_gameid := [''/lb/roms/a.rom'' \<mapsto> 0]\<rparr>, [7, 0]), [])
   \<and> (\<exists>s. store_game demo_world (demo_finfo ''/lb/'' ''roms/a.rom'') [(ID, ''g1'')] demo_platform
             (map_of demo_emulators) empty_sctx [] = Some ((0, s, [0]), [])
          \<and> path_to_gameid s = [''/lb/roms/a.rom'' \<mapsto> 0])
   \<and> (\<exists>s. store_addiapp demo_world ''/lb/Data/Platforms/SNES.xml'' ''/lb/''
             [(AA_ID, ''x1''), (AA_GAME_ID, ''g1''), (AA_PATH, ''roms/b.rom'')] [''g1'' \<mapsto> 0]
             (empty_sctx\<lparr>games := [(0, new_Game (demo_finfo ''/lb/'' ''roms/a.rom''))],
                         path_to_gameid := [''/lb/roms/a.rom'' \<mapsto> 0]\<rparr>) = Some (s, [])
          \<and> path_to_gameid s = [''/lb/roms/a.rom'' \<mapsto> 0, ''/lb/roms/b.rom'' \<mapsto> 0])"
proof -
  let ?fa = "demo_finfo ''/lb/'' ''roms/a.rom''"
  note T = dedup_invariant[where w = demo_world and lb_dir = "''/lb/''"
      and platform = demo_platform and emulators = "map_of demo_emulators"
      and finfo = ?fa and flds = "[(ID, ''g1'')]"
      and xmlpath = "''/lb/Data/Platforms/SNES.xml''"]
  have ca: "canonicalFilePath ?fa = ''/lb/roms/a.rom''"
    by (simp add: demo_finfo_def Let_def)
  \<comment> \<open>the scan\<close>
  obtain s d where f: "findLists demo_world ''/lb/'' empty_sctx = Some (s, d)"
    and k: "map fst (games s) = [0, 1]"
    using demo_findLists by auto
  have si: "scan_inv s"
    using T[where sctx = empty_sctx and sctx' = s and ds = d, THEN conjunct2, THEN conjunct1]
      scan_inv_empty f
    by blast
  have c1: "\<exists>s d. findLists demo_world ''/lb/'' empty_sctx = Some (s, d) \<and> scan_inv s
          \<and> map fst (games s) = [0, 1]"
    using f k si by (intro exI[of _ s] exI[of _ d]) simp
  \<comment> \<open>a hit\<close>
  have h2: "path_to_gameid (empty_sctx\<lparr>path_to_gameid := [''/lb/roms/a.rom'' \<mapsto> 0]\<rparr>)
              (canonicalFilePath ?fa) = Some 0"
    by (simp add: ca)
  have c2: "store_game demo_world ?fa [(ID, ''g1'')] demo_platform
        (map_of demo_emulators) (empty_sctx\<lparr>path_to_gameid := [''/lb/roms/a.rom'' \<mapsto> 0]\<rparr>) [7]
      = Some ((0, empty_sctx\<lparr>path_to_gameid := [''/lb/roms/a.rom'' \<mapsto> 0]\<rparr>, [7, 0]), [])"
    using T[where sctx = "empty_sctx\<lparr>path_to_gameid := [''/lb/roms/a.rom'' \<mapsto> 0]\<rparr>"
        and i = 0 and childs = "[7]", THEN conjunct2, THEN conjunct2, THEN conjunct1,
        rule_format, OF h2]
    by simp
  \<comment> \<open>a miss\<close>
  have em: "map_of demo_emulators (default_emu_id demo_platform)
            = Some \<lparr>emu_app_path = ''/lb/emu/retroarch'', emu_cmd_params = ''-f''\<rparr>"
    by (simp add: demo_emulators_def demo_platform_def)
  obtain r where r: "store_game demo_world ?fa [(ID, ''g1'')] demo_platform
                       (map_of demo_emulators) empty_sctx [] = Some (r, [])"
    using store_game_returns[where emulators = "map_of demo_emulators"
        and platform = demo_platform, OF em] by blast
  obtain k' sa ca' where r': "r = (k', sa, ca')" by (cases r)
  have h3: "scan_inv empty_sctx \<and> path_to_gameid empty_sctx (canonicalFilePath ?fa) = None
        \<and> store_game demo_world ?fa [(ID, ''g1'')] demo_platform
             (map_of demo_emulators) empty_sctx [] = Some ((k', sa, ca'), [])"
    using r r' scan_inv_empty by (simp add: empty_sctx_def)
  from T[where sctx = empty_sctx and childs = "[]" and k = k' and sctxa = sa and childsa = ca'
      and dsa = "[]", THEN conjunct2, THEN conjunct2, THEN conjunct2, THEN conjunct1,
      rule_format, OF h3]
  have "k' = 0" "ca' = [0]" "path_to_gameid sa = [''/lb/roms/a.rom'' \<mapsto> 0]"
    by (simp_all add: empty_sctx_def ca)
  then have c3: "\<exists>s. store_game demo_world ?fa [(ID, ''g1'')] demo_platform
             (map_of demo_emulators) empty_sctx [] = Some ((0, s, [0]), [])
          \<and> path_to_gameid s = [''/lb/roms/a.rom'' \<mapsto> 0]"
    using r r' by (intro exI[of _ sa]) simp
  \<comment> \<open>an additional application\<close>
  let ?one = "empty_sctx\<lparr>games := [(0, new_Game ?fa)],
                         path_to_gameid := [''/lb/roms/a.rom'' \<mapsto> 0]\<rparr>"
  let ?vals = "[(AA_ID, ''x1''), (AA_GAME_ID, ''g1''), (AA_PATH, ''roms/b.rom'')]"
  have "\<exists>sb. store_addiapp demo_world ''/lb/Data/Platforms/SNES.xml'' ''/lb/'' ?vals
               [''g1'' \<mapsto> 0] ?one = Some (sb, [])"
    by (simp add: store_addiapp_def demo_world_def demo_finfo_def Let_def)
  then obtain sb where sb: "store_addiapp demo_world ''/lb/Data/Platforms/SNES.xml'' ''/lb/'' ?vals
               [''g1'' \<mapsto> 0] ?one = Some (sb, [])"
    by blast
  from T[where sctx = ?one and vals = ?vals and gameid_map = "[''g1'' \<mapsto> 0]" and sctxb = sb,
      THEN conjunct2, THEN conjunct2, THEN conjunct2, THEN conjunct2, rule_format, OF sb]
  have "path_to_gameid sb = [''/lb/roms/a.rom'' \<mapsto> 0, ''/lb/roms/b.rom'' \<mapsto> 0]"
    by (auto simp: demo_world_def demo_finfo_def Let_def)
  then have c4: "\<exists>s. store_addiapp demo_world ''/lb/Data/Platforms/SNES.xml'' ''/lb/'' ?vals
             [''g1'' \<mapsto> 0] ?one = Some (s, [])
          \<and> path_to_gameid s = [''/lb/roms/a.rom'' \<mapsto> 0, ''/lb/roms/b.rom'' \<mapsto> 0]"
    using sb by (intro exI[of _ sb]) simp
  from c1 c2 c3 c4 show ?thesis by (intro conjI)
qed

text \<open>The claim as stated fails for an additional application whose file is already in
  the dedup index under another game. In the demo platform file the additional
  application \<open>x1\<close> of game \<open>g1\<close> (\<open>Zelda\<close>, id 0) has the file of game \<open>g2\<close> (\<open>Mario\<close>,
  id 1): the file is attached to game 0, and the index keeps pointing at game 1.\<close>

theorem dedup_index_counterexample:
  "map_option (\<lambda>r. (path_to_gameid (fst (fst r)) ''/lb/roms/b.rom'',
                     map_option (\<lambda>g. (title g, map (\<lambda>gf. filePath (fileinfo gf)) (files g)))
                       (map_of (games (fst (fst r))) 0),
                     map_option title (map_of (games (fst (fst r))) 1),
                     snd r))
     (platform_xml_read_root demo_world ''/lb/Data/Platforms/SNES.xml'' demo_snes ''/lb/''
        demo_platform (map_of demo_emulators) empty_sctx)
   = Some (Some 1, Some (''Zelda'', [''/lb/roms/a.rom'', ''/lb/roms/b.rom'']), Some ''Mario'',
           [Warn_game_file_missing ''/lb/Data/Platforms/SNES.xml'' ''roms/missing.rom''])"
  by (rule demo_platform_file)

end
